theory Spec2Isabelle
  imports Complex_Main
begin

section \<open>JavaScript values\<close>

text \<open>
  The values a JSON request body or a loosely typed argument can hold. Numbers are
  exact rationals: every finite double is one, and the sources only compare and round
  them. A missing property reads as \<open>JUndefined\<close>.
\<close>

datatype jsval =
    JUndefined
  | JNull
  | JBool bool
  | JNum rat
  | JStr string
  | JArr "jsval list"
  | JObj "(string \<times> jsval) list"

text \<open>\<^verbatim>\<open>!!v\<close>: the truthiness of a value.\<close>

fun truthy :: "jsval \<Rightarrow> bool" where
  "truthy JUndefined = False"
| "truthy JNull = False"
| "truthy (JBool b) = b"
| "truthy (JNum r) = (r \<noteq> 0)"
| "truthy (JStr s) = (s \<noteq> [])"
| "truthy (JArr _) = True"
| "truthy (JObj _) = True"

text \<open>
  \<^verbatim>\<open>ToNumber\<close>, with \<open>None\<close> for \<^verbatim>\<open>NaN\<close>. What JavaScript makes of a string, an
  array or an object (parsing, \<^verbatim>\<open>toString\<close>) is the parameter \<open>conv\<close>.
\<close>

fun ToNumber :: "(jsval \<Rightarrow> rat option) \<Rightarrow> jsval \<Rightarrow> rat option" where
  "ToNumber conv JUndefined = None"
| "ToNumber conv JNull = Some 0"
| "ToNumber conv (JBool b) = Some (if b then 1 else 0)"
| "ToNumber conv (JNum r) = Some r"
| "ToNumber conv v = conv v"

text \<open>
  \<^verbatim>\<open>v < n\<close>, \<^verbatim>\<open>v >= n\<close> and \<^verbatim>\<open>v > n\<close> against a number: false as soon as \<open>v\<close> is
  \<^verbatim>\<open>NaN\<close>.
\<close>

definition js_lt :: "(jsval \<Rightarrow> rat option) \<Rightarrow> jsval \<Rightarrow> rat \<Rightarrow> bool" where
  "js_lt conv v n = (case ToNumber conv v of None \<Rightarrow> False | Some r \<Rightarrow> r < n)"

definition js_ge :: "(jsval \<Rightarrow> rat option) \<Rightarrow> jsval \<Rightarrow> rat \<Rightarrow> bool" where
  "js_ge conv v n = (case ToNumber conv v of None \<Rightarrow> False | Some r \<Rightarrow> r \<ge> n)"

definition js_gt :: "(jsval \<Rightarrow> rat option) \<Rightarrow> jsval \<Rightarrow> rat \<Rightarrow> bool" where
  "js_gt conv v n = (case ToNumber conv v of None \<Rightarrow> False | Some r \<Rightarrow> r > n)"

text \<open>A default parameter \<^verbatim>\<open>p = null\<close>: only \<^verbatim>\<open>undefined\<close> takes the default.\<close>

definition default_null :: "jsval \<Rightarrow> jsval" where
  "default_null v = (if v = JUndefined then JNull else v)"


text \<open>\<^verbatim>\<open>Array.prototype.join\<close> on a list of strings.\<close>

fun join :: "string \<Rightarrow> string list \<Rightarrow> string" where
  "join sep [] = []"
| "join sep [x] = x"
| "join sep (x # y # ys) = x @ sep @ join sep (y # ys)"

text \<open>What every validation gate returns.\<close>

record 'e validation =
  isValid :: bool
  errors :: "'e list"

section \<open>Characters (code units below 256)\<close>

text \<open>
  Strings are \<open>string\<close>: texts whose code units are below 256. On these,
  the white space of \<^verbatim>\<open>\s\<close> and of \<^verbatim>\<open>trim\<close> is TAB, LF, VT, FF, CR, SPACE and NBSP;
  the line terminators that \<^verbatim>\<open>.\<close> refuses are LF and CR; \<^verbatim>\<open>\w\<close> is a letter of
  A-Z or a-z, a digit or the underscore.
\<close>

definition code_unit :: "char \<Rightarrow> nat" where
  "code_unit c = of_char c"

definition is_space :: "char \<Rightarrow> bool" where
  "is_space c = (code_unit c \<in> {9, 10, 11, 12, 13, 32, 160})"

definition is_line_terminator :: "char \<Rightarrow> bool" where
  "is_line_terminator c = (code_unit c \<in> {10, 13})"

definition is_digit :: "char \<Rightarrow> bool" where
  "is_digit c = (48 \<le> code_unit c \<and> code_unit c \<le> 57)"

definition is_word_char :: "char \<Rightarrow> bool" where
  "is_word_char c =
     (let n = code_unit c
      in (65 \<le> n \<and> n \<le> 90) \<or> (97 \<le> n \<and> n \<le> 122) \<or> (48 \<le> n \<and> n \<le> 57) \<or> n = 95)"

text \<open>
  \<^verbatim>\<open>toLowerCase\<close> of one code unit: A-Z, and the capital letters of the upper half
  (all of 192..222 but the multiplication sign 215), move up by 32.
\<close>

definition lower_char :: "char \<Rightarrow> char" where
  "lower_char c =
     (let n = code_unit c
      in if (65 \<le> n \<and> n \<le> 90) \<or> (192 \<le> n \<and> n \<le> 222 \<and> n \<noteq> 215)
         then char_of (n + 32) else c)"

definition toLowerCase :: "string \<Rightarrow> string" where
  "toLowerCase s = map lower_char s"


section \<open>Errors\<close>

text \<open>
  Every \<^verbatim>\<open>throw\<close> of the JavaScript sources, and every runtime \<^verbatim>\<open>TypeError\<close> they can
  raise, is a value of this type; a fallible function returns \<open>error + 'a\<close>.
  \<open>Thrown v\<close> rethrows the error object caught from the language-model client, of
  which the sources read only the status \<open>v\<close>.
\<close>

datatype error =
    TypeError
  | Thrown jsval
  | CannotSplit int int
  | NoVisualForGap int
  | NoVisualForTail int
  | OverlapDetected int int
  | NoVisualClip int
  | NoAssetsInDatabase
  | RanOutOfAssets int
  | DownloadFailed

section \<open>The job store (inMemoryQueue.js)\<close>

record job =
  job_id :: string
  topic :: jsval
  duration_seconds :: jsval
  tone :: jsval
  dry_run :: bool
  status :: jsval
  progress :: jsval
  eta_seconds :: jsval
  created_at :: nat
  result :: jsval
  message :: jsval

record queue_state =
  jobs :: "string \<rightharpoonup> job"
  queue :: "string list"




definition updateJobStatus ::
  "queue_state \<Rightarrow> string \<Rightarrow> jsval \<Rightarrow> jsval \<Rightarrow> jsval \<Rightarrow> jsval \<Rightarrow> jsval \<Rightarrow> queue_state" where
  "updateJobStatus q jobId st res prog eta msg =
     (let res' = default_null res; prog' = default_null prog;
          eta' = default_null eta; msg' = default_null msg
      in case jobs q jobId of
           None \<Rightarrow> q
         | Some j \<Rightarrow>
             (let j1 = j\<lparr> status := st \<rparr>;
                  j2 = (if truthy res' then j1\<lparr> result := res' \<rparr> else j1);
                  j3 = (if prog' \<noteq> JNull then j2\<lparr> progress := prog' \<rparr> else j2);
                  j4 = (if eta' \<noteq> JNull then j3\<lparr> eta_seconds := eta' \<rparr> else j3);
                  j5 = (if msg' \<noteq> JNull then j4\<lparr> message := msg' \<rparr> else j4)
              in q\<lparr> jobs := (jobs q)(jobId \<mapsto> j5) \<rparr>))"

definition getJob :: "queue_state \<Rightarrow> string \<Rightarrow> job option" where
  "getJob q jobId = jobs q jobId"

text \<open>The supplied arguments of an update: present and not \<^verbatim>\<open>null\<close>.\<close>

definition supplied :: "jsval \<Rightarrow> bool" where
  "supplied v = (v \<noteq> JNull \<and> v \<noteq> JUndefined)"

definition demo_job :: job where
  "demo_job =
     \<lparr> job_id = ''j1'', topic = JStr ''The Science of Caffeine'', duration_seconds = JNum 30,
       tone = JStr ''informative'', dry_run = False, status = JStr ''PROCESSING'',
       progress = JNum 10, eta_seconds = JNum 60, created_at = 0,
       result = JObj [(''script'', JStr ''s'')], message = JUndefined \<rparr>"

definition demo_queue :: queue_state where
  "demo_queue = \<lparr> jobs = [''j1'' \<mapsto> demo_job], queue = [] \<rparr>"

section \<open>Word timestamps and captions (captionService.js)\<close>

record word_ts =
  word :: string
  start_ms :: int
  end_ms :: int
  emphasis :: bool

record style =
  font_size :: nat
  color :: string
  emphasis_color :: string
  shadow :: string

record caption =
  cap_text :: string
  cap_start_ms :: int
  cap_end_ms :: int
  emphasis_indices :: "nat list"
  cap_style :: style

definition default_style :: style where
  "default_style =
     \<lparr> font_size = 48, color = ''#FFFFFF'', emphasis_color = ''#FCD34D'',
       shadow = ''2px 2px 4px rgba(0,0,0,0.5)'' \<rparr>"

text \<open>
  \<^verbatim>\<open>_pushGroup\<close>: reading \<^verbatim>\<open>currentGroup[0].start_ms\<close> of an empty group is a
  \<^verbatim>\<open>TypeError\<close> in the source.
\<close>

definition emphasis_positions :: "word_ts list \<Rightarrow> nat list" where
  "emphasis_positions g = filter (\<lambda>i. emphasis (g ! i)) [0..<length g]"

definition pushGroup :: "caption list \<Rightarrow> word_ts list \<Rightarrow> error + caption list" where
  "pushGroup groups currentGroup =
     (case currentGroup of
        [] \<Rightarrow> Inl TypeError
      | first # _ \<Rightarrow>
          Inr (groups @
            [\<lparr> cap_text = join '' '' (map word currentGroup),
               cap_start_ms = start_ms first,
               cap_end_ms = end_ms (last currentGroup),
               emphasis_indices = emphasis_positions currentGroup,
               cap_style = default_style \<rparr>]))"

text \<open>
  The body of the \<^verbatim>\<open>forEach\<close> of \<^verbatim>\<open>CaptionService.generateTimeline\<close>; the state is
  \<^verbatim>\<open>(groups, currentGroup)\<close>, and \<open>isLastWord\<close> says that the item is the last one.
\<close>

definition caption_step ::
  "word_ts \<Rightarrow> bool \<Rightarrow> caption list \<times> word_ts list \<Rightarrow> error + (caption list \<times> word_ts list)" where
  "caption_step item isLastWord st =
     (let groups = fst st; currentGroup = snd st;
          isFirstInGroup = (currentGroup = []);
          potentialStart = (if isFirstInGroup then start_ms item else start_ms (hd currentGroup));
          potentialDuration = end_ms item - potentialStart;
          wouldExceedDuration = (\<not> isFirstInGroup \<and> potentialDuration > 800);
          reachedMaxWords = (length currentGroup \<ge> 3)
      in case (if wouldExceedDuration \<or> reachedMaxWords
               then (case pushGroup groups currentGroup of
                       Inl e \<Rightarrow> Inl e
                     | Inr groups' \<Rightarrow> Inr (groups', [item]))
               else Inr (groups, currentGroup @ [item])) of
           Inl e \<Rightarrow> Inl e
         | Inr (groups1, currentGroup1) \<Rightarrow>
             if isLastWord \<and> length currentGroup1 > 0
             then (case pushGroup groups1 currentGroup1 of
                     Inl e \<Rightarrow> Inl e
                   | Inr groups2 \<Rightarrow> Inr (groups2, currentGroup1))
             else Inr (groups1, currentGroup1))"

fun caption_loop ::
  "word_ts list \<Rightarrow> caption list \<times> word_ts list \<Rightarrow> error + (caption list \<times> word_ts list)" where
  "caption_loop [] st = Inr st"
| "caption_loop (item # rest) st =
     (case caption_step item (rest = []) st of
        Inl e \<Rightarrow> Inl e
      | Inr st' \<Rightarrow> caption_loop rest st')"

definition caption_generateTimeline :: "word_ts list \<Rightarrow> error + caption list" where
  "caption_generateTimeline timestamps =
     (case caption_loop timestamps ([], []) of
        Inl e \<Rightarrow> Inl e
      | Inr st \<Rightarrow> Inr (fst st))"

definition mk_word :: "string \<Rightarrow> int \<Rightarrow> int \<Rightarrow> bool \<Rightarrow> word_ts" where
  "mk_word w s e b = \<lparr> word = w, start_ms = s, end_ms = e, emphasis = b \<rparr>"

definition mk_caption :: "string \<Rightarrow> int \<Rightarrow> int \<Rightarrow> nat list \<Rightarrow> caption" where
  "mk_caption t s e ix =
     \<lparr> cap_text = t, cap_start_ms = s, cap_end_ms = e, emphasis_indices = ix,
       cap_style = default_style \<rparr>"

definition s5_words :: "word_ts list" where
  "s5_words =
     [mk_word ''a'' 0 300 False, mk_word ''b'' 300 600 False,
      mk_word ''c'' 600 900 False, mk_word ''d'' 900 1200 False]"

section \<open>POST /api/generate (the router)\<close>

















section \<open>The retry loop of the language-model adapter (llmService.js)\<close>

text \<open>
  The remote model is a function from the number of calls made so far and the index of
  the key in use to its reply: a text, or a failure carrying what the handler reads as
  \<^verbatim>\<open>status\<close> (\<^verbatim>\<open>error.status || error.code || ...\<close>, \<open>JUndefined\<close> when the error
  has none). Waiting (throttle, backoff) changes nothing the loop reads.
\<close>

datatype reply = Text string | Failure jsval

record llm =
  apiKeys :: "string list"
  currentKeyIdx :: nat

definition rotateKey :: "llm \<Rightarrow> bool \<times> llm" where
  "rotateKey s =
     (if length (apiKeys s) \<le> 1 then (False, s)
      else (True, s\<lparr> currentKeyIdx := (currentKeyIdx s + 1) mod length (apiKeys s) \<rparr>))"

record call_state =
  service :: llm
  calls :: nat
  attempt :: int
  lastError :: jsval

text \<open>
  The \<^verbatim>\<open>for\<close> loop of \<^verbatim>\<open>_callModel\<close>. \<open>None\<close> is a loop that never returns. After a
  429 with a rotated key the source runs \<^verbatim>\<open>attempt--\<close> and \<^verbatim>\<open>continue\<close>, whose
  \<^verbatim>\<open>attempt++\<close> restores the counter. \<^verbatim>\<open>_rotateKey\<close> is called on a 429 only (with a
  single key it changes nothing); a 503 or an error with no status keeps the key.
\<close>

partial_function (option) callModel_loop ::
  "(jsval \<Rightarrow> rat option) \<Rightarrow> (nat \<Rightarrow> nat \<Rightarrow> reply) \<Rightarrow> int \<Rightarrow> call_state
     \<Rightarrow> ((error + string) \<times> call_state) option" where
  "callModel_loop conv model retries s =
     (if attempt s < retries then
        (case model (calls s) (currentKeyIdx (service s)) of
           Text t \<Rightarrow> Some (Inr t, s\<lparr> calls := calls s + 1 \<rparr>)
         | Failure st \<Rightarrow>
             (let s1 = s\<lparr> calls := calls s + 1, lastError := st \<rparr>
              in if truthy st \<and> js_ge conv st 400 \<and> js_lt conv st 500
                    \<and> st \<noteq> JNum 429
                 then Some (Inl (Thrown st), s1)
                 else if st = JNum 429 \<or> st = JNum 503 \<or> \<not> truthy st then
                   (if st = JNum 429 then
                      (if fst (rotateKey (service s1))
                       then callModel_loop conv model retries
                              (s1\<lparr> service := snd (rotateKey (service s1)),
                                   attempt := (attempt s1 - 1) + 1 \<rparr>)
                       else callModel_loop conv model retries
                              (s1\<lparr> service := snd (rotateKey (service s1)),
                                   attempt := attempt s1 + 1 \<rparr>))
                    else callModel_loop conv model retries
                           (s1\<lparr> attempt := attempt s1 + 1 \<rparr>))
                 else Some (Inl (Thrown st), s1)))
      else Some (Inl (Thrown (lastError s)), s))"

text \<open>\<^verbatim>\<open>_callModel(prompt, { retries = 3 })\<close> on a service with the given keys.\<close>

definition callModel ::
  "(jsval \<Rightarrow> rat option) \<Rightarrow> (nat \<Rightarrow> nat \<Rightarrow> reply) \<Rightarrow> llm
     \<Rightarrow> ((error + string) \<times> call_state) option" where
  "callModel conv model svc =
     callModel_loop conv model 3 \<lparr> service = svc, calls = 0, attempt = 0, lastError = JNull \<rparr>"

definition always_429 :: "nat \<Rightarrow> nat \<Rightarrow> reply" where
  "always_429 n k = Failure (JNum 429)"

definition two_keys :: llm where
  "two_keys = \<lparr> apiKeys = [''key-1'', ''key-2''], currentKeyIdx = 0 \<rparr>"

section \<open>Visual clips and the visual gate of the scene processor\<close>

record transform =
  t_zoom :: rat
  t_pan :: string

record visual_clip =
  clip_id :: string
  source :: string
  file_path :: string
  clip_start_ms :: int
  clip_end_ms :: int
  keyword :: "string option"
  clip_transform :: transform

text \<open>
  Reading a property of a clip object by name, as \<^verbatim>\<open>clip.name\<close> does: the seven
  properties that \<^verbatim>\<open>VisualService.generateTimeline\<close> writes, and \<^verbatim>\<open>undefined\<close> for any
  other name.
\<close>

definition clip_prop :: "visual_clip \<Rightarrow> string \<Rightarrow> jsval" where
  "clip_prop c name =
     (if name = ''clip_id'' then JStr (clip_id c)
      else if name = ''source'' then JStr (source c)
      else if name = ''file_path'' then JStr (file_path c)
      else if name = ''start_ms'' then JNum (of_int (clip_start_ms c))
      else if name = ''end_ms'' then JNum (of_int (clip_end_ms c))
      else if name = ''keyword''
        then (case keyword c of None \<Rightarrow> JUndefined | Some k \<Rightarrow> JStr k)
      else if name = ''transform''
        then JObj [(''zoom'', JNum (t_zoom (clip_transform c))),
                   (''pan'', JStr (t_pan (clip_transform c)))]
      else JUndefined)"

datatype visual_qc_error =
    ClipTooLong nat jsval
  | ClipTooShort nat jsval
  | VisualEnergyTooLow int

text \<open>The body of the \<^verbatim>\<open>forEach\<close> of \<^verbatim>\<open>QualityControlService.validateVisuals\<close>.\<close>

definition check_clip :: "(jsval \<Rightarrow> rat option) \<Rightarrow> nat \<times> visual_clip \<Rightarrow> visual_qc_error list" where
  "check_clip conv ic =
     (if js_gt conv (clip_prop (snd ic) ''durationMs'') 2500
      then [ClipTooLong (fst ic + 1) (clip_prop (snd ic) ''durationMs'')] else [])
     @ (if js_lt conv (clip_prop (snd ic) ''durationMs'') 800
        then [ClipTooShort (fst ic + 1) (clip_prop (snd ic) ''durationMs'')] else [])"

text \<open>\<^verbatim>\<open>x / n\<close> for a positive count \<open>n\<close>; \<open>None\<close> is \<^verbatim>\<open>NaN\<close>.\<close>

definition js_div_count :: "rat option \<Rightarrow> nat \<Rightarrow> rat option" where
  "js_div_count x n = (case x of None \<Rightarrow> None | Some r \<Rightarrow> Some (r / of_nat n))"

definition validateVisuals ::
  "(jsval \<Rightarrow> rat option) \<Rightarrow> visual_clip list \<Rightarrow> visual_qc_error validation" where
  "validateVisuals conv visualTimeline =
     (let errors1 = concat (map (check_clip conv) (enumerate 0 visualTimeline));
          avgFreq = (if length visualTimeline > 0
                     then js_div_count (ToNumber conv (clip_prop (last visualTimeline) ''endTimeMs''))
                            (length visualTimeline)
                     else Some 0);
          errors2 = (case avgFreq of
                       None \<Rightarrow> errors1
                     | Some a \<Rightarrow> if a > 3000 then errors1 @ [VisualEnergyTooLow (round a)]
                                else errors1)
      in \<lparr> isValid = (errors2 = []), errors = errors2 \<rparr>)"

text \<open>
  The timeline the builder returns for a scene of 360 ms (a scene of one word): one clip
  from 0 to 360.
\<close>

definition short_scene_clip :: visual_clip where
  "short_scene_clip =
     \<lparr> clip_id = ''mock_fin_1'', source = ''MockStock'',
       file_path = ''assets/clips/mock_fin_1.mp4'', clip_start_ms = 0, clip_end_ms = 360,
       keyword = Some ''money'', clip_transform = \<lparr> t_zoom = 1, t_pan = ''none'' \<rparr> \<rparr>"

section \<open>Scripts\<close>

text \<open>
  A script object as the services read it: the scene list the language model is asked
  for, and the optional properties \<^verbatim>\<open>hook\<close>, \<^verbatim>\<open>body\<close> and \<^verbatim>\<open>ending\<close> of the older
  shape. \<open>None\<close> is a missing property; a missing \<^verbatim>\<open>body\<close> or \<^verbatim>\<open>scenes\<close> is the empty
  list, which every reader in the sources treats alike.
\<close>

record scene =
  scene_type :: string
  scene_text :: string
  scene_keywords :: "string list"

record script =
  hook :: "string option"
  body :: "string list"
  ending :: "string option"
  scenes :: "scene list"

datatype script_data = ScriptText string | ScriptObject script

section \<open>The timing model of the audio service (audioService.js)\<close>

text \<open>
  \<^verbatim>\<open>s.split(/\s+/)\<close>: the pieces between the maximal runs of white space. A leading or a
  trailing run leaves an empty piece; the empty string has one piece, itself.
\<close>

function split_go :: "string \<Rightarrow> string \<Rightarrow> string list" where
  "split_go [] cur = [cur]"
| "split_go (c # cs) cur =
     (if is_space c then cur # split_go (dropWhile is_space cs) []
      else split_go cs (cur @ [c]))"
  by pat_completeness auto
termination
  by (relation "measure (\<lambda>(s, cur). length s)")
     (auto simp: length_dropWhile_le less_Suc_eq_le)

definition split_ws :: "string \<Rightarrow> string list" where
  "split_ws s = split_go s []"

text \<open>\<^verbatim>\<open>w.replace(/[^\w]/g, '')\<close>.\<close>

definition strip_non_word :: "string \<Rightarrow> string" where
  "strip_non_word w = filter is_word_char w"

definition catalysts :: "string list" where
  "catalysts =
     [''but'', ''however'', ''instead'', ''secret'', ''hidden'', ''mastery'',
      ''always'', ''never'', ''must'', ''only'', ''stop'', ''start'', ''limit'']"

definition checkEmphasis :: "string \<Rightarrow> bool" where
  "checkEmphasis w =
     (let clean = strip_non_word (toLowerCase w)
      in if list_ex is_digit clean then True else clean \<in> set catalysts)"

record pacing =
  hook_multiplier :: rat
  body_multiplier :: rat
  ending_multiplier :: rat

record audio_metadata =
  word_count :: nat
  pacing_model :: pacing

record audio_result =
  audio_path :: string
  timestamps :: "word_ts list"
  duration_ms :: int
  metadata :: audio_metadata

text \<open>
  The inner \<^verbatim>\<open>forEach\<close> over the words of a section. The state is
  \<^verbatim>\<open>(currentTimeMs, sectionDurationMs, timestamps)\<close>. \<^verbatim>\<open>Math.round\<close> is \<open>round\<close>
  (\<open>\<lfloor>x + 1/2\<rfloor>\<close>). Times are exact rationals: 0.8, 1.2, 1.15 and 0.15 are the
  fractions 4/5, 6/5, 23/20 and 3/20.
\<close>

definition word_step ::
  "rat \<Rightarrow> string \<Rightarrow> rat \<times> rat \<times> word_ts list \<Rightarrow> rat \<times> rat \<times> word_ts list" where
  "word_step duration_multiplier w st =
     (let currentTimeMs = fst st; sectionDurationMs = fst (snd st); ts = snd (snd st);
          isEmphasis = checkEmphasis w;
          wordDuration0 = 300 * duration_multiplier;
          wordDuration = (if isEmphasis then wordDuration0 * (23 / 20) else wordDuration0);
          cleanWord = strip_non_word w
      in (currentTimeMs + wordDuration, sectionDurationMs + wordDuration,
          ts @ [\<lparr> word = cleanWord, start_ms = round currentTimeMs,
                   end_ms = round (currentTimeMs + wordDuration), emphasis = isEmphasis \<rparr>]))"

text \<open>
  The outer \<^verbatim>\<open>forEach\<close> over the sections; \<open>n\<close> is \<^verbatim>\<open>allText.length\<close> and the state is
  \<^verbatim>\<open>(currentTimeMs, timestamps)\<close>.
\<close>

definition section_step ::
  "nat \<Rightarrow> nat \<times> string \<Rightarrow> rat \<times> word_ts list \<Rightarrow> rat \<times> word_ts list" where
  "section_step n isec st =
     (let sectionIdx = fst isec; ws = split_ws (snd isec);
          isHook = (sectionIdx = 0);
          isEnding = (int sectionIdx = int n - 1);
          m0 = (1 :: rat);
          m1 = (if isHook then 4 / 5 else m0);
          duration_multiplier = (if isEnding then 6 / 5 else m1);
          r = fold (word_step duration_multiplier) ws (fst st, 0, snd st);
          currentTimeMs = fst r; sectionDurationMs = fst (snd r); ts = snd (snd r)
      in if int sectionIdx < int n - 1
         then (currentTimeMs + min (max (sectionDurationMs * (3 / 20)) 150) 450, ts)
         else (currentTimeMs, ts))"

definition truthy_text :: "string option \<Rightarrow> string list" where
  "truthy_text t = (case t of None \<Rightarrow> [] | Some s \<Rightarrow> if s = [] then [] else [s])"

text \<open>\<^verbatim>\<open>[hook, ...(body || []), ending].filter(Boolean)\<close>, or the one text of a string.\<close>

definition allText :: "script_data \<Rightarrow> string list" where
  "allText d =
     (case d of
        ScriptText s \<Rightarrow> [s]
      | ScriptObject sc \<Rightarrow>
          truthy_text (hook sc) @ filter (\<lambda>s. s \<noteq> []) (body sc) @ truthy_text (ending sc))"

definition buildResult :: "string \<Rightarrow> word_ts list \<Rightarrow> rat \<Rightarrow> audio_result" where
  "buildResult audioPath ts durationMs =
     \<lparr> audio_path = audioPath, timestamps = ts, duration_ms = round durationMs,
       metadata = \<lparr> word_count = length ts,
                    pacing_model = \<lparr> hook_multiplier = 4 / 5, body_multiplier = 1,
                                     ending_multiplier = 6 / 5 \<rparr> \<rparr> \<rparr>"

text \<open>
  \<^verbatim>\<open>generateVoiceover\<close>. Every path of the source returns
  \<^verbatim>\<open>_buildResult(path, timestamps, totalDurationMs)\<close> with the same timestamps and
  total; which file was written, and by which synthesiser, only decides the path, an
  argument here.
\<close>

definition voice_timing :: "script_data \<Rightarrow> rat \<times> word_ts list" where
  "voice_timing d =
     fold (section_step (length (allText d))) (enumerate 0 (allText d)) (0, [])"

definition generateVoiceover :: "string \<Rightarrow> script_data \<Rightarrow> audio_result" where
  "generateVoiceover audioPath d =
     buildResult audioPath (snd (voice_timing d)) (fst (voice_timing d))"

subsection \<open>The timing model in the words of the specification\<close>

text \<open>
  Section \<open>i\<close> of \<open>n\<close> has the multiplier 0.8 when it is the hook, 1.2 when it is the
  ending and 1 otherwise; a word lasts 300 times the multiplier, times 1.15 for an
  emphasis trigger; after each section but the last comes a pause of 15 per cent of the
  section, clamped to 150..450. The start of a word is the sum of all that precedes it.
\<close>

definition spec_trigger :: "string \<Rightarrow> bool" where
  "spec_trigger w =
     ((\<exists>c \<in> set (strip_non_word (toLowerCase w)). is_digit c)
      \<or> strip_non_word (toLowerCase w) \<in> set catalysts)"


definition spec_word_duration :: "rat \<Rightarrow> string \<Rightarrow> rat" where
  "spec_word_duration m w = 300 * m * (if spec_trigger w then 23 / 20 else 1)"


definition spec_pause :: "rat \<Rightarrow> rat" where
  "spec_pause d = max 150 (min 450 (d * (3 / 20)))"








subsection \<open>Properties of a timestamp list\<close>

text \<open>
  Every word ends after it starts, and no word starts before the one before it has
  ended.
\<close>

definition ordered_timestamps :: "word_ts list \<Rightarrow> bool" where
  "ordered_timestamps ts =
     ((\<forall>i < length ts. start_ms (ts ! i) < end_ms (ts ! i))
      \<and> (\<forall>i. Suc i < length ts \<longrightarrow> end_ms (ts ! i) \<le> start_ms (ts ! Suc i)))"

text \<open>
  The invariant of the two loops: the list is ordered and no word ends after the
  (rounded) cursor; it is tight when the last word ends exactly at the cursor.
\<close>

definition timing_inv :: "rat \<times> word_ts list \<Rightarrow> bool" where
  "timing_inv st =
     (ordered_timestamps (snd st) \<and> (\<forall>t \<in> set (snd st). end_ms t \<le> round (fst st)))"

definition timing_tight :: "rat \<times> word_ts list \<Rightarrow> bool" where
  "timing_tight st = (snd st \<noteq> [] \<and> end_ms (last (snd st)) = round (fst st))"


section \<open>The script quality gate (qualityControlService.js)\<close>

text \<open>\<^verbatim>\<open>s.includes(p)\<close>: \<open>p\<close> occurs in \<open>s\<close> as a contiguous piece.\<close>

fun starts_with :: "string \<Rightarrow> string \<Rightarrow> bool" where
  "starts_with s [] = True"
| "starts_with [] (p # ps) = False"
| "starts_with (c # cs) (p # ps) = (c = p \<and> starts_with cs ps)"

fun js_includes :: "string \<Rightarrow> string \<Rightarrow> bool" where
  "js_includes [] p = starts_with [] p"
| "js_includes (c # cs) p = (starts_with (c # cs) p \<or> js_includes cs p)"

subsection \<open>The regular expressions of the hook patterns\<close>

text \<open>
  The four patterns are sequences of three kinds of item: a literal text, a choice
  between literal texts \<^verbatim>\<open>(a|b|c)\<close>, and \<^verbatim>\<open>.+\<close>. Under the flag \<^verbatim>\<open>i\<close> two code units
  match when their canonical (upper-case) forms agree; no code unit outside ASCII
  has the canonical form of an ASCII one.
\<close>

datatype rx_item = Lit string | OneOf "string list" | AnyPlus

definition canonicalize :: "char \<Rightarrow> char" where
  "canonicalize c =
     (let n = code_unit c
      in if (97 \<le> n \<and> n \<le> 122) \<or> (224 \<le> n \<and> n \<le> 254 \<and> n \<noteq> 247)
         then char_of (n - 32) else c)"

text \<open>What is left of \<open>s\<close> after the literal \<open>p\<close> at its start, if \<open>p\<close> is there.\<close>

fun match_lit :: "string \<Rightarrow> string \<Rightarrow> string option" where
  "match_lit [] s = Some s"
| "match_lit (p # ps) [] = None"
| "match_lit (p # ps) (c # cs) =
     (if canonicalize p = canonicalize c then match_lit ps cs else None)"

text \<open>
  What can be left of \<open>s\<close> after \<^verbatim>\<open>.+\<close> at its start: one or more code units, none of
  them a line terminator, are consumed.
\<close>

fun dot_rests :: "string \<Rightarrow> string list" where
  "dot_rests [] = []"
| "dot_rests (c # cs) = (if is_line_terminator c then [] else cs # dot_rests cs)"

definition lit_rests :: "string \<Rightarrow> string \<Rightarrow> string list" where
  "lit_rests p s = (case match_lit p s of None \<Rightarrow> [] | Some r \<Rightarrow> [r])"

fun item_rests :: "rx_item \<Rightarrow> string \<Rightarrow> string list" where
  "item_rests (Lit p) s = lit_rests p s"
| "item_rests (OneOf ps) s = concat (map (\<lambda>p. lit_rests p s) ps)"
| "item_rests AnyPlus s = dot_rests s"

text \<open>Every way the whole pattern can match at the start of \<open>s\<close>, by what is left.\<close>

fun pattern_rests :: "rx_item list \<Rightarrow> string \<Rightarrow> string list" where
  "pattern_rests [] s = [s]"
| "pattern_rests (i # rest) s = concat (map (pattern_rests rest) (item_rests i s))"

text \<open>\<^verbatim>\<open>pattern.test(s)\<close>: the pattern matches at some position of \<open>s\<close>.\<close>

fun regex_test :: "rx_item list \<Rightarrow> string \<Rightarrow> bool" where
  "regex_test p [] = (pattern_rests p [] \<noteq> [])"
| "regex_test p (c # cs) = (pattern_rests p (c # cs) \<noteq> [] \<or> regex_test p cs)"

definition BANNED_HOOK_PHRASES :: "string list" where
  "BANNED_HOOK_PHRASES =
     [''did you know'', ''in this video'', ''let'' @ [CHR 0x27] @ ''s talk about'',
      ''you won'' @ [CHR 0x27] @ ''t believe'']"

definition belief_reversal :: "rx_item list" where
  "belief_reversal =
     [OneOf [''most'', ''many'', ''some''], Lit '' '',
      OneOf [''people'', ''thinkers'', ''experts''], Lit '' think '', AnyPlus,
      Lit '', but '', AnyPlus]"

definition suppressed_truth :: "rx_item list" where
  "suppressed_truth =
     [Lit ''nobody '', OneOf [''tells'', ''told'', ''is telling''],
      Lit '' you this about '', AnyPlus]"

definition counterintuitive_claim :: "rx_item list" where
  "counterintuitive_claim = [Lit ''this sounds wrong, but '', AnyPlus]"

definition brutal_honesty :: "rx_item list" where
  "brutal_honesty =
     [AnyPlus, Lit '' '', OneOf [''isn'' @ [CHR 0x27] @ ''t'', ''is not''],
      Lit '' the problem. '', AnyPlus, Lit '' is.'']"

definition HOOK_PATTERNS :: "rx_item list list" where
  "HOOK_PATTERNS = [belief_reversal, suppressed_truth, counterintuitive_claim, brutal_honesty]"

datatype script_error =
    NoHookFound
  | HookTooLong nat
  | HookBannedPhrase string
  | HookLacksCuriosity
  | EndingTooLong nat

text \<open>
  \<^verbatim>\<open>script.hook || (script.scenes && script.scenes[0]?.text)\<close> and the same for the
  ending with the last scene: the property if it is truthy, else the scene text
  (\<open>None\<close> when there is no scene).
\<close>

definition hook_of :: "script \<Rightarrow> string option" where
  "hook_of s =
     (let sceneText = (case scenes s of [] \<Rightarrow> None | sc # _ \<Rightarrow> Some (scene_text sc))
      in case hook s of
           None \<Rightarrow> sceneText
         | Some h \<Rightarrow> if h \<noteq> [] then Some h else sceneText)"

definition ending_of :: "script \<Rightarrow> string option" where
  "ending_of s =
     (let sceneText = (case scenes s of [] \<Rightarrow> None | _ # _ \<Rightarrow> Some (scene_text (last (scenes s))))
      in case ending s of
           None \<Rightarrow> sceneText
         | Some e \<Rightarrow> if e \<noteq> [] then Some e else sceneText)"

definition banned_errors :: "string \<Rightarrow> script_error list" where
  "banned_errors hookLower =
     concat (map (\<lambda>phrase. if js_includes hookLower phrase then [HookBannedPhrase phrase] else [])
               BANNED_HOOK_PHRASES)"

definition validateScript :: "script \<Rightarrow> script_error validation" where
  "validateScript s =
     (case hook_of s of
        None \<Rightarrow> \<lparr> isValid = False, errors = [NoHookFound] \<rparr>
      | Some h \<Rightarrow>
          if h = [] then \<lparr> isValid = False, errors = [NoHookFound] \<rparr>
          else
            (let hookLower = toLowerCase h;
                 hookWords = length (split_ws h);
                 errors1 = (if hookWords > 12 then [HookTooLong hookWords] else []);
                 errors2 = errors1 @ banned_errors hookLower;
                 matchesPattern = list_ex (\<lambda>pattern. regex_test pattern h) HOOK_PATTERNS;
                 errors3 = (if \<not> matchesPattern then errors2 @ [HookLacksCuriosity] else errors2);
                 errors4 =
                   (case ending_of s of
                      None \<Rightarrow> errors3
                    | Some e \<Rightarrow>
                        if e \<noteq> [] \<and> length (split_ws e) > 8
                        then errors3 @ [EndingTooLong (length (split_ws e))]
                        else errors3)
             in \<lparr> isValid = (errors4 = []), errors = errors4 \<rparr>))"

definition mk_scene :: "string \<Rightarrow> string \<Rightarrow> scene" where
  "mk_scene ty t = \<lparr> scene_type = ty, scene_text = t, scene_keywords = [] \<rparr>"



subsection \<open>Words and pieces\<close>







definition top_level_hook_script :: script where
  "top_level_hook_script =
     \<lparr> hook = Some ''Coffee facts'', body = [], ending = None,
       scenes = [mk_scene ''hook'' ''Most people think coffee wakes you, but it blocks adenosine'',
                 mk_scene ''ending'' ''The tiredness only waits.''] \<rparr>"
section \<open>The edit plan builder (editingService.js)\<close>

datatype caption_ref = Cap nat | Silence nat | SilenceTail nat

datatype reason = Cut | Emphasis | PatternInterrupt

text \<open>
  A working segment: \<^verbatim>\<open>{start_ms, end_ms, caption_id, caption, words}\<close>. A segment
  that has no \<^verbatim>\<open>words\<close> property yet has the empty list, which is how the source reads
  it (\<^verbatim>\<open>s.words || []\<close>); the caption of a filler is \<^verbatim>\<open>null\<close>.
\<close>

record segment =
  seg_start_ms :: int
  seg_end_ms :: int
  seg_caption_id :: caption_ref
  seg_caption :: "caption option"
  seg_words :: "word_ts list"

text \<open>
  A segment of the returned plan, and the entry the builder works on, which carries
  the private \<^verbatim>\<open>_words\<close> and \<^verbatim>\<open>_caption\<close> as well.
\<close>

record edit_segment =
  e_start_ms :: int
  e_end_ms :: int
  e_clip_id :: string
  zoom :: rat
  pan :: string
  e_caption_id :: caption_ref
  e_reason :: reason

record plan_entry = edit_segment +
  p_words :: "word_ts list"
  p_caption :: "caption option"

datatype edit_error =
    MissingAudioTimestamps
  | MissingCaptionsTimeline
  | MissingVisualsTimeline
  | PatternInterruptMissing int int
  | SegmentTooLong string int int
  | InvalidZoom rat string
  | GapOverlapAt int int
  | TimelineEndMismatch int int
  | ZoomWithoutEmphasis int

record edit_result = "edit_error validation" +
  plan :: "edit_segment list option"

record edit_inputs =
  in_audio :: "audio_result option"
  in_captions :: "caption list option"
  in_visuals :: "visual_clip list option"

definition MAX_SEGMENT_MS :: int where "MAX_SEGMENT_MS = 3000"
definition PATTERN_INTERVAL_MS :: int where "PATTERN_INTERVAL_MS = 2500"
definition BASE_ZOOM :: rat where "BASE_ZOOM = 1"
definition EMPHASIS_ZOOM :: rat where "EMPHASIS_ZOOM = 21 / 20"
definition PANS :: "string list" where "PANS = [''none'', ''left'', ''right'', ''up'', ''down'']"

definition wordsInRange :: "word_ts list \<Rightarrow> int \<Rightarrow> int \<Rightarrow> word_ts list" where
  "wordsInRange ws s e = filter (\<lambda>w. start_ms w \<ge> s \<and> end_ms w \<le> e) ws"

definition findVisualForTime :: "visual_clip list \<Rightarrow> int \<Rightarrow> visual_clip option" where
  "findVisualForTime vs t = find (\<lambda>v. clip_start_ms v \<le> t \<and> clip_end_ms v > t) vs"

definition deterministicPan :: "string \<Rightarrow> string" where
  "deterministicPan clipId =
     PANS ! ((sum_list (map code_unit clipId) mod (length PANS - 1)) + 1)"

subsection \<open>Splitting long segments at word boundaries\<close>

text \<open>The \<^verbatim>\<open>while (cursor < s.end_ms)\<close> loop of \<^verbatim>\<open>_splitAtWordBoundaries\<close>.\<close>

function split_loop :: "word_ts list \<Rightarrow> segment \<Rightarrow> int \<Rightarrow> error + segment list" where
  "split_loop ws s cursor =
     (if cursor < seg_end_ms s then
        (let target = min (cursor + MAX_SEGMENT_MS) (seg_end_ms s);
             candidate = wordsInRange ws cursor (target + 1);
             sliceEnd = (if candidate \<noteq> [] then min (end_ms (last candidate)) (seg_end_ms s)
                         else target)
         in if sliceEnd \<le> cursor then Inl (CannotSplit cursor (seg_end_ms s))
            else (case split_loop ws s sliceEnd of
                    Inl e \<Rightarrow> Inl e
                  | Inr out \<Rightarrow>
                      Inr (\<lparr> seg_start_ms = cursor, seg_end_ms = sliceEnd,
                              seg_caption_id = seg_caption_id s, seg_caption = seg_caption s,
                              seg_words = wordsInRange ws cursor sliceEnd \<rparr> # out)))
      else Inr [])"
  by pat_completeness auto
termination
  by (relation "measure (\<lambda>(ws, s, cursor). nat (seg_end_ms s - cursor))") auto

definition split_segment :: "word_ts list \<Rightarrow> segment \<Rightarrow> error + segment list" where
  "split_segment ws s =
     (if seg_end_ms s - seg_start_ms s \<le> MAX_SEGMENT_MS
      then Inr [s\<lparr> seg_words := wordsInRange ws (seg_start_ms s) (seg_end_ms s) \<rparr>]
      else split_loop ws s (seg_start_ms s))"

fun splitAtWordBoundaries :: "segment list \<Rightarrow> word_ts list \<Rightarrow> error + segment list" where
  "splitAtWordBoundaries [] ws = Inr []"
| "splitAtWordBoundaries (s # segs) ws =
     (case split_segment ws s of
        Inl e \<Rightarrow> Inl e
      | Inr out1 \<Rightarrow>
          (case splitAtWordBoundaries segs ws of
             Inl e \<Rightarrow> Inl e
           | Inr out2 \<Rightarrow> Inr (out1 @ out2)))"

subsection \<open>Isolating emphasised words\<close>

text \<open>
  The loop over the words of one segment; the state is \<^verbatim>\<open>(cursor, out)\<close>, where \<open>out\<close>
  holds what this segment has contributed so far.
\<close>

definition isolate_word ::
  "word_ts list \<Rightarrow> segment \<Rightarrow> word_ts \<Rightarrow> int \<times> segment list \<Rightarrow> int \<times> segment list" where
  "isolate_word ws s w st =
     (if emphasis w then
        (let cursor = fst st;
             out1 = (if start_ms w > cursor
                     then snd st @ [\<lparr> seg_start_ms = cursor, seg_end_ms = start_ms w,
                                       seg_caption_id = seg_caption_id s,
                                       seg_caption = seg_caption s,
                                       seg_words = wordsInRange ws cursor (start_ms w) \<rparr>]
                     else snd st);
             out2 = out1 @ [\<lparr> seg_start_ms = start_ms w, seg_end_ms = end_ms w,
                               seg_caption_id = seg_caption_id s, seg_caption = seg_caption s,
                               seg_words = [w] \<rparr>]
         in (end_ms w, out2))
      else st)"

definition isolate_segment :: "word_ts list \<Rightarrow> segment \<Rightarrow> segment list" where
  "isolate_segment ws s =
     (if filter emphasis (seg_words s) = [] then [s]
      else
        (let st = fold (isolate_word ws s) (seg_words s) (seg_start_ms s, []);
             cursor = fst st
         in if cursor < seg_end_ms s
            then snd st @ [\<lparr> seg_start_ms = cursor, seg_end_ms = seg_end_ms s,
                              seg_caption_id = seg_caption_id s, seg_caption = seg_caption s,
                              seg_words = wordsInRange ws cursor (seg_end_ms s) \<rparr>]
            else snd st))"

definition isolateEmphasis :: "segment list \<Rightarrow> word_ts list \<Rightarrow> segment list" where
  "isolateEmphasis segs ws = concat (map (isolate_segment ws) segs)"

subsection \<open>Filling the gaps\<close>

text \<open>
  The \<^verbatim>\<open>while (gapStart < gapEnd)\<close> loop, the same for a gap between segments
  (\<open>mk = Silence\<close>) and for the trailing silence (\<open>mk = SilenceTail\<close>); it returns the
  fillers and the next free index.
\<close>

function gap_loop ::
  "(nat \<Rightarrow> caption_ref) \<Rightarrow> (int \<Rightarrow> error) \<Rightarrow> visual_clip list \<Rightarrow> int \<Rightarrow> int \<Rightarrow> nat
     \<Rightarrow> error + (segment list \<times> nat)" where
  "gap_loop mk err vs gapStart gapEnd idx =
     (if gapStart < gapEnd then
        (let chunkEnd = min (gapStart + MAX_SEGMENT_MS) gapEnd
         in case findVisualForTime vs gapStart of
              None \<Rightarrow> Inl (err gapStart)
            | Some coveringClip \<Rightarrow>
                (case gap_loop mk err vs chunkEnd gapEnd (idx + 1) of
                   Inl e \<Rightarrow> Inl e
                 | Inr r \<Rightarrow>
                     Inr (\<lparr> seg_start_ms = gapStart, seg_end_ms = chunkEnd,
                             seg_caption_id = mk idx, seg_caption = None,
                             seg_words = [] \<rparr> # fst r, snd r)))
      else Inr ([], idx))"
  by pat_completeness auto
termination
  by (relation "measure (\<lambda>(mk, err, vs, gapStart, gapEnd, idx). nat (gapEnd - gapStart))")
     (auto simp: MAX_SEGMENT_MS_def)

text \<open>
  The loop over the sorted segments; the state is \<^verbatim>\<open>(out, expected, silenceIdx)\<close>.
\<close>

fun fill_loop ::
  "visual_clip list \<Rightarrow> segment list \<Rightarrow> segment list \<times> int \<times> nat
     \<Rightarrow> error + (segment list \<times> int \<times> nat)" where
  "fill_loop vs [] st = Inr st"
| "fill_loop vs (s # segs) st =
     (let out = fst st; expected = fst (snd st); silenceIdx = snd (snd st)
      in if seg_start_ms s > expected + 20 then
           (case gap_loop Silence NoVisualForGap vs expected (seg_start_ms s) silenceIdx of
              Inl e \<Rightarrow> Inl e
            | Inr r \<Rightarrow> fill_loop vs segs (out @ fst r @ [s], seg_end_ms s, snd r))
         else if seg_start_ms s < expected - 20 then
           Inl (OverlapDetected (seg_start_ms s) expected)
         else fill_loop vs segs (out @ [s], seg_end_ms s, silenceIdx))"

definition fillGapsDeterministically ::
  "segment list \<Rightarrow> visual_clip list \<Rightarrow> int \<Rightarrow> error + segment list" where
  "fillGapsDeterministically segs vs totalDuration =
     (case fill_loop vs (sort_key seg_start_ms segs) ([], 0, 0) of
        Inl e \<Rightarrow> Inl e
      | Inr st \<Rightarrow>
          (let out = fst st; expected = fst (snd st)
           in if expected < totalDuration - 20 then
                (case gap_loop SilenceTail NoVisualForTail vs expected totalDuration 0 of
                   Inl e \<Rightarrow> Inl e
                 | Inr r \<Rightarrow> Inr (out @ fst r))
              else Inr out))"

subsection \<open>Attaching visuals, emphasis and pattern interrupts\<close>

definition attach_visual :: "visual_clip list \<Rightarrow> segment \<Rightarrow> error + plan_entry" where
  "attach_visual vs s =
     (case findVisualForTime vs (seg_start_ms s) of
        None \<Rightarrow> Inl (NoVisualClip (seg_start_ms s))
      | Some clip \<Rightarrow>
          Inr \<lparr> e_start_ms = seg_start_ms s, e_end_ms = seg_end_ms s, e_clip_id = clip_id clip,
                zoom = BASE_ZOOM, pan = ''none'', e_caption_id = seg_caption_id s,
                e_reason = Cut, p_words = seg_words s, p_caption = seg_caption s \<rparr>)"

fun attach_visuals :: "visual_clip list \<Rightarrow> segment list \<Rightarrow> error + plan_entry list" where
  "attach_visuals vs [] = Inr []"
| "attach_visuals vs (s # segs) =
     (case attach_visual vs s of
        Inl e \<Rightarrow> Inl e
      | Inr p \<Rightarrow>
          (case attach_visuals vs segs of
             Inl e \<Rightarrow> Inl e
           | Inr ps \<Rightarrow> Inr (p # ps)))"

text \<open>The body of the loop \<^verbatim>\<open>for (const e of planEntries)\<close>.\<close>

definition apply_emphasis :: "plan_entry \<Rightarrow> plan_entry" where
  "apply_emphasis e =
     (let e1 = (if length (p_words e) = 1 \<and> emphasis (hd (p_words e))
                then e\<lparr> zoom := EMPHASIS_ZOOM, e_reason := Emphasis \<rparr> else e)
      in case p_caption e1 of
           None \<Rightarrow> e1
         | Some c \<Rightarrow>
             if emphasis_indices c \<noteq> [] \<and> zoom e1 = BASE_ZOOM
             then e1\<lparr> zoom := EMPHASIS_ZOOM, e_reason := Emphasis \<rparr>
             else e1)"

text \<open>
  \<^verbatim>\<open>planEntries.find(...)\<close> followed by the assignments to the entry found: the first
  entry that satisfies \<open>P\<close> is replaced by its image, the list is otherwise untouched;
  \<open>None\<close> when no entry satisfies \<open>P\<close>.
\<close>

fun update_first :: "('a \<Rightarrow> bool) \<Rightarrow> ('a \<Rightarrow> 'a) \<Rightarrow> 'a list \<Rightarrow> 'a list option" where
  "update_first P f [] = None"
| "update_first P f (x # xs) =
     (if P x then Some (f x # xs)
      else (case update_first P f xs of None \<Rightarrow> None | Some ys \<Rightarrow> Some (x # ys)))"

definition window_candidate :: "int \<Rightarrow> int \<Rightarrow> plan_entry \<Rightarrow> bool" where
  "window_candidate windowStart windowEnd p =
     (e_start_ms p < windowEnd \<and> e_end_ms p > windowStart \<and> e_reason p \<noteq> Emphasis)"

definition interrupt :: "plan_entry \<Rightarrow> plan_entry" where
  "interrupt p = p\<lparr> pan := deterministicPan (e_clip_id p), e_reason := PatternInterrupt \<rparr>"

text \<open>
  The loop over the windows; \<open>Inl\<close> is the early return
  \<^verbatim>\<open>{ isValid: false, errors: [...] }\<close>.
\<close>

function pattern_loop :: "int \<Rightarrow> int \<Rightarrow> plan_entry list \<Rightarrow> edit_error + plan_entry list" where
  "pattern_loop totalDuration windowStart ps =
     (if windowStart < totalDuration then
        (let windowEnd = min (windowStart + PATTERN_INTERVAL_MS) totalDuration
         in case update_first (window_candidate windowStart windowEnd) interrupt ps of
              None \<Rightarrow> Inl (PatternInterruptMissing windowStart windowEnd)
            | Some ps' \<Rightarrow> pattern_loop totalDuration (windowStart + PATTERN_INTERVAL_MS) ps')
      else Inr ps)"
  by pat_completeness auto
termination
  by (relation "measure (\<lambda>(totalDuration, windowStart, ps). nat (totalDuration - windowStart))")
     (auto simp: PATTERN_INTERVAL_MS_def)

subsection \<open>Validation\<close>

definition length_errors :: "plan_entry \<Rightarrow> edit_error list" where
  "length_errors p =
     (if e_end_ms p - e_start_ms p > MAX_SEGMENT_MS
      then [SegmentTooLong (e_clip_id p) (e_start_ms p) (e_end_ms p)] else [])
     @ (if zoom p \<notin> set [BASE_ZOOM, EMPHASIS_ZOOM] then [InvalidZoom (zoom p) (e_clip_id p)]
        else [])"

text \<open>The gap loop of \<^verbatim>\<open>_validate\<close>; it returns the errors and the last \<open>expected\<close>.\<close>

fun gap_errors :: "plan_entry list \<Rightarrow> int \<Rightarrow> edit_error list \<times> int" where
  "gap_errors [] expected = ([], expected)"
| "gap_errors (p # ps) expected =
     (let r = gap_errors ps (e_end_ms p)
      in if \<bar>e_start_ms p - expected\<bar> > 20
         then (GapOverlapAt (e_start_ms p) expected # fst r, snd r)
         else r)"

definition zoom_errors :: "plan_entry \<Rightarrow> edit_error list" where
  "zoom_errors p =
     (if zoom p \<noteq> BASE_ZOOM \<and> e_reason p \<noteq> Emphasis then [ZoomWithoutEmphasis (e_start_ms p)]
      else [])"

text \<open>
  \<^verbatim>\<open>_validate\<close> sorts the plan in place, so it returns the sorted plan with its
  verdict.
\<close>

definition edit_validate ::
  "plan_entry list \<Rightarrow> int \<Rightarrow> edit_error validation \<times> plan_entry list" where
  "edit_validate ps totalDuration =
     (let errors1 = concat (map length_errors ps);
          sorted_plan = sort_key e_start_ms ps;
          g = gap_errors sorted_plan 0;
          errors2 = errors1 @ fst g;
          expected = snd g;
          errors3 = (if \<bar>expected - totalDuration\<bar> > 200
                     then errors2 @ [TimelineEndMismatch totalDuration expected] else errors2);
          errors4 = errors3 @ concat (map zoom_errors sorted_plan)
      in (\<lparr> isValid = (errors4 = []), errors = errors4 \<rparr>, sorted_plan))"

subsection \<open>The main entry\<close>

definition invalid_result :: "edit_error list \<Rightarrow> edit_result" where
  "invalid_result es = \<lparr> isValid = False, errors = es, plan = None \<rparr>"

definition base_segments :: "caption list \<Rightarrow> segment list" where
  "base_segments cs =
     map (\<lambda>ic. \<lparr> seg_start_ms = cap_start_ms (snd ic), seg_end_ms = cap_end_ms (snd ic),
                  seg_caption_id = Cap (fst ic), seg_caption = Some (snd ic),
                  seg_words = [] \<rparr>)
       (enumerate 0 cs)"

definition build_entries ::
  "audio_result \<Rightarrow> caption list \<Rightarrow> visual_clip list \<Rightarrow> error + plan_entry list" where
  "build_entries a cs vs =
     (case splitAtWordBoundaries (base_segments cs) (timestamps a) of
        Inl e \<Rightarrow> Inl e
      | Inr segs1 \<Rightarrow>
          (case fillGapsDeterministically (isolateEmphasis segs1 (timestamps a)) vs
                  (duration_ms a) of
             Inl e \<Rightarrow> Inl e
           | Inr segs3 \<Rightarrow>
               (case attach_visuals vs segs3 of
                  Inl e \<Rightarrow> Inl e
                | Inr ps \<Rightarrow> Inr (map apply_emphasis ps))))"

definition finish_plan :: "plan_entry list \<Rightarrow> int \<Rightarrow> edit_result" where
  "finish_plan ps totalDuration =
     (case pattern_loop totalDuration 0 ps of
        Inl e \<Rightarrow> invalid_result [e]
      | Inr ps' \<Rightarrow>
          (let v = edit_validate ps' totalDuration
           in if \<not> isValid (fst v) then invalid_result (errors (fst v))
              else \<lparr> isValid = True, errors = [],
                     plan = Some (map edit_segment.truncate (snd v)) \<rparr>))"

definition generateEditPlan :: "edit_inputs \<Rightarrow> error + edit_result" where
  "generateEditPlan inputs =
     (case in_audio inputs of
        None \<Rightarrow> Inr (invalid_result [MissingAudioTimestamps])
      | Some a \<Rightarrow>
          (case in_captions inputs of
             None \<Rightarrow> Inr (invalid_result [MissingCaptionsTimeline])
           | Some cs \<Rightarrow>
               (case in_visuals inputs of
                  None \<Rightarrow> Inr (invalid_result [MissingVisualsTimeline])
                | Some vs \<Rightarrow>
                    (case build_entries a cs vs of
                       Inl e \<Rightarrow> Inl e
                     | Inr ps \<Rightarrow> Inr (finish_plan ps (duration_ms a))))))"

subsection \<open>Invariant I4 of an edit plan\<close>

text \<open>
  Each segment starts within 20 ms of where the one before it ended, the first within
  20 ms of \<open>expected\<close>; the result is where the last one ends.
\<close>

fun contiguous_from :: "int \<Rightarrow> edit_segment list \<Rightarrow> bool" where
  "contiguous_from expected [] = True"
| "contiguous_from expected (p # ps) =
     (\<bar>e_start_ms p - expected\<bar> \<le> 20 \<and> contiguous_from (e_end_ms p) ps)"

fun plan_end :: "int \<Rightarrow> edit_segment list \<Rightarrow> int" where
  "plan_end expected [] = expected"
| "plan_end expected (p # ps) = plan_end (e_end_ms p) ps"

text \<open>
  Window \<open>k\<close> is \<open>[2500 k, 2500 (k + 1))\<close> cut at the total duration. A segment
  intersects it when it starts before the window ends and ends after the window
  starts, which is the test of the source.
\<close>

definition window_has_interrupt :: "int \<Rightarrow> edit_segment list \<Rightarrow> int \<Rightarrow> bool" where
  "window_has_interrupt totalDuration ps k =
     (\<exists>p \<in> set ps. e_reason p = PatternInterrupt
        \<and> e_start_ms p < min ((k + 1) * 2500) totalDuration \<and> e_end_ms p > k * 2500)"

definition I4 :: "int \<Rightarrow> edit_segment list \<Rightarrow> bool" where
  "I4 totalDuration ps =
     (contiguous_from 0 (sort_key e_start_ms ps)
      \<and> \<bar>plan_end 0 (sort_key e_start_ms ps) - totalDuration\<bar> \<le> 200
      \<and> (\<forall>p \<in> set ps. e_end_ms p - e_start_ms p \<le> 3000)
      \<and> (\<forall>p \<in> set ps. zoom p \<noteq> 1 \<longrightarrow> e_reason p = Emphasis)
      \<and> (\<forall>k. 0 \<le> k \<and> k * 2500 < totalDuration \<longrightarrow> window_has_interrupt totalDuration ps k))"

subsection \<open>What the window loop preserves\<close>

text \<open>
  Two plans have the same frame when they have the same segments, position by
  position, as far as the times go, and no pattern interrupt of the first is lost in
  the second. A window is hit when a pattern-interrupt entry intersects it.
\<close>

definition same_frame :: "plan_entry list \<Rightarrow> plan_entry list \<Rightarrow> bool" where
  "same_frame ps ps' =
     (length ps' = length ps
      \<and> (\<forall>i < length ps. e_start_ms (ps' ! i) = e_start_ms (ps ! i)
            \<and> e_end_ms (ps' ! i) = e_end_ms (ps ! i)
            \<and> (e_reason (ps ! i) = PatternInterrupt \<longrightarrow> e_reason (ps' ! i) = PatternInterrupt)))"

definition window_hit :: "int \<Rightarrow> int \<Rightarrow> plan_entry list \<Rightarrow> bool" where
  "window_hit windowStart windowEnd ps =
     (\<exists>i < length ps. e_reason (ps ! i) = PatternInterrupt
        \<and> e_start_ms (ps ! i) < windowEnd \<and> e_end_ms (ps ! i) > windowStart)"

subsection \<open>A scene of three words\<close>

definition demo_audio :: audio_result where
  "demo_audio =
     buildResult ''a.wav''
       [mk_word ''Stop'' 0 276 True, mk_word ''now'' 276 516 False, mk_word ''Go'' 666 1026 False]
       1026"

definition demo_captions :: "caption list" where
  "demo_captions = [mk_caption ''Stop now'' 0 516 [0], mk_caption ''Go'' 666 1026 []]"

definition demo_visuals :: "visual_clip list" where
  "demo_visuals =
     [\<lparr> clip_id = ''mock_fin_1'', source = ''MockStock'',
        file_path = ''assets/clips/mock_fin_1.mp4'', clip_start_ms = 0, clip_end_ms = 1026,
        keyword = Some ''money'', clip_transform = \<lparr> t_zoom = 1, t_pan = ''none'' \<rparr> \<rparr>]"

definition demo_inputs :: edit_inputs where
  "demo_inputs =
     \<lparr> in_audio = Some demo_audio, in_captions = Some demo_captions,
       in_visuals = Some demo_visuals \<rparr>"

definition demo_plan :: "edit_segment list" where
  "demo_plan =
     [\<lparr> e_start_ms = 0, e_end_ms = 276, e_clip_id = ''mock_fin_1'', zoom = 21 / 20,
        pan = ''none'', e_caption_id = Cap 0, e_reason = Emphasis \<rparr>,
      \<lparr> e_start_ms = 276, e_end_ms = 516, e_clip_id = ''mock_fin_1'', zoom = 21 / 20,
        pan = ''none'', e_caption_id = Cap 0, e_reason = Emphasis \<rparr>,
      \<lparr> e_start_ms = 516, e_end_ms = 666, e_clip_id = ''mock_fin_1'', zoom = 1,
        pan = ''up'', e_caption_id = Silence 0, e_reason = PatternInterrupt \<rparr>,
      \<lparr> e_start_ms = 666, e_end_ms = 1026, e_clip_id = ''mock_fin_1'', zoom = 1,
        pan = ''none'', e_caption_id = Cap 1, e_reason = Cut \<rparr>]"

section \<open>The visual timeline builder (visualService.js, stockProvider.js)\<close>

record asset =
  asset_id :: string
  tags :: "string list"
  url :: string
  provider :: string

definition mock_asset :: "string \<Rightarrow> string list \<Rightarrow> string \<Rightarrow> asset" where
  "mock_asset i ts u = \<lparr> asset_id = i, tags = ts, url = u, provider = ''MockStock'' \<rparr>"

definition MOCK_DB :: "asset list" where
  "MOCK_DB =
     [mock_asset ''mock_fin_1'' [''finance'', ''money'', ''growth'', ''chart''] ''http://mock.com/fin1.mp4'',
      mock_asset ''mock_fin_2'' [''finance'', ''business'', ''office'', ''meeting''] ''http://mock.com/fin2.mp4'',
      mock_asset ''mock_fin_3'' [''money'', ''cash'', ''wealth''] ''http://mock.com/fin3.mp4'',
      mock_asset ''mock_fin_4'' [''finance'', ''market'', ''stock''] ''http://mock.com/fin4.mp4'',
      mock_asset ''mock_fin_5'' [''business'', ''handshake'', ''deal''] ''http://mock.com/fin5.mp4'',
      mock_asset ''mock_tech_1'' [''technology'', ''computer'', ''code'', ''hacker''] ''http://mock.com/tech1.mp4'',
      mock_asset ''mock_tech_2'' [''future'', ''robot'', ''ai'', ''cyber''] ''http://mock.com/tech2.mp4'',
      mock_asset ''mock_tech_3'' [''code'', ''screen'', ''software''] ''http://mock.com/tech3.mp4'',
      mock_asset ''mock_tech_4'' [''server'', ''data'', ''cloud''] ''http://mock.com/tech4.mp4'',
      mock_asset ''mock_tech_5'' [''mobile'', ''app'', ''phone''] ''http://mock.com/tech5.mp4'',
      mock_asset ''mock_nat_1'' [''nature'', ''forest'', ''calm'', ''green''] ''http://mock.com/nat1.mp4'',
      mock_asset ''mock_nat_2'' [''water'', ''ocean'', ''blue'', ''relax''] ''http://mock.com/nat2.mp4'',
      mock_asset ''mock_nat_3'' [''mountain'', ''sky'', ''clouds''] ''http://mock.com/nat3.mp4'',
      mock_asset ''mock_nat_4'' [''flowers'', ''spring'', ''bloom''] ''http://mock.com/nat4.mp4'',
      mock_asset ''mock_nat_5'' [''sunset'', ''sun'', ''evening''] ''http://mock.com/nat5.mp4'',
      mock_asset ''mock_broll_1'' [''people'', ''walking'', ''city''] ''http://mock.com/gen1.mp4'',
      mock_asset ''mock_broll_2'' [''street'', ''traffic'', ''night''] ''http://mock.com/gen2.mp4'',
      mock_asset ''mock_broll_3'' [''abstract'', ''lights'', ''blur''] ''http://mock.com/gen3.mp4'']"

definition getFallbacks :: "asset list" where
  "getFallbacks = MOCK_DB"

definition getAllUnusedAssets :: "string set \<Rightarrow> asset list" where
  "getAllUnusedAssets usedIds = filter (\<lambda>a. asset_id a \<notin> usedIds) MOCK_DB"

subsection \<open>Doubles\<close>

text \<open>
  Where the builder takes the integer part of a product or a sum of numbers that are
  not whole, the random draws, the rounding of JavaScript's numbers can decide the
  result, so these operations are rounded as IEEE 754 binary64 does: to the nearest
  number with 53 significant bits, ties to the even one. \<open>double x\<close> is that number for \<open>0 \<le> x < 2^53\<close>: \<open>x\<close> is scaled
  by the power of two that brings it to at least \<open>2^52\<close> (at most \<open>2^1074\<close>, the
  subnormal step), rounded to an integer, and scaled back.
\<close>

definition round_even :: "rat \<Rightarrow> int" where
  "round_even y =
     (let f = \<lfloor>y\<rfloor>; d = y - of_int f
      in if d < 1 / 2 then f else if d > 1 / 2 then f + 1 else if even f then f else f + 1)"

function find_shift :: "rat \<Rightarrow> nat \<Rightarrow> nat" where
  "find_shift x j = (if 1074 \<le> j \<or> 2 ^ 52 \<le> x * 2 ^ j then j else find_shift x (j + 1))"
  by pat_completeness auto
termination
  by (relation "measure (\<lambda>(x, j). 1074 - j)") auto

declare find_shift.simps [simp del]

definition double :: "rat \<Rightarrow> rat" where
  "double x = of_int (round_even (x * 2 ^ find_shift x 0)) / 2 ^ find_shift x 0"

subsection \<open>The environment\<close>

text \<open>
  What the builder takes from outside. \<open>random_stream\<close> feeds \<^verbatim>\<open>Math.random()\<close>: the
  \<open>k\<close>-th call returns \<open>n / 2^53\<close> for the \<open>k\<close>-th element \<open>n\<close> of the stream (taken modulo
  \<open>2^53\<close>), so any double of [0, 1) on the grid of \<open>2^-53\<close>. \<open>lookup\<close> is what the asset
  cache, or failing it a search of the stock provider, yields for a keyword at the
  \<open>k\<close>-th lookup (the pre-fetch of the source only fills that cache). \<open>local_file\<close> is
  \<^verbatim>\<open>_ensureLocalAsset\<close>, the path of the local copy, or \<open>None\<close> when the download
  rejects.
\<close>

record visual_env =
  random_stream :: "nat \<Rightarrow> int"
  lookup :: "nat \<Rightarrow> string option \<Rightarrow> asset list"
  local_file :: "nat \<Rightarrow> asset \<Rightarrow> string option"

definition random :: "visual_env \<Rightarrow> nat \<Rightarrow> rat" where
  "random env k = of_int (random_stream env k mod 2 ^ 53) / 2 ^ 53"

text \<open>\<^verbatim>\<open>Math.floor(Math.random() * n)\<close>, an index into a list of \<open>n\<close> elements.\<close>

definition random_index :: "visual_env \<Rightarrow> nat \<Rightarrow> nat \<Rightarrow> nat" where
  "random_index env k n = nat \<lfloor>double (random env k * of_nat n)\<rfloor>"

text \<open>
  The state of the loop: the locals \<^verbatim>\<open>currentTimeMs\<close>, \<^verbatim>\<open>usedIds\<close>, \<^verbatim>\<open>keywordIdx\<close>
  and \<^verbatim>\<open>timeline\<close>, and how many random numbers, lookups and local files were taken.
\<close>

record vstate =
  v_currentTimeMs :: int
  usedIds :: "string set"
  keywordIdx :: nat
  v_timeline :: "visual_clip list"
  draws :: nat
  lookups :: nat
  files :: nat

definition MAX_CLIP_MS :: int where "MAX_CLIP_MS = 3000"

text \<open>\<^verbatim>\<open>[...new Set(keywords)]\<close>: the first occurrence of each keyword, in order.\<close>

definition uniqueKeywords :: "string list \<Rightarrow> string list" where
  "uniqueKeywords kws = rev (remdups (rev kws))"

text \<open>
  \<^verbatim>\<open>_selectUniqueAsset\<close>: the four layers. (The \<^verbatim>\<open>reused\<close> mark that layer 4 leaves on
  the asset object is read by nobody and is left out.) In layer 3 an index that is not
  below the length reads \<^verbatim>\<open>undefined\<close>, which the callers take for no asset.
\<close>

definition selectUniqueAsset ::
  "visual_env \<Rightarrow> string option \<Rightarrow> bool \<Rightarrow> string option \<Rightarrow> vstate \<Rightarrow> asset option \<times> vstate" where
  "selectUniqueAsset env kw allowReuse lastId st =
     (let assets = lookup env (lookups st) kw;
          st1 = st\<lparr> lookups := lookups st + 1 \<rparr>
      in case find (\<lambda>a. asset_id a \<notin> usedIds st) assets of
           Some candidate \<Rightarrow> (Some candidate, st1)
         | None \<Rightarrow>
             (case find (\<lambda>a. asset_id a \<notin> usedIds st) getFallbacks of
                Some candidate \<Rightarrow> (Some candidate, st1)
              | None \<Rightarrow>
                  (let allAssets = getAllUnusedAssets (usedIds st)
                   in if length allAssets > 0
                      then (let i = random_index env (draws st1) (length allAssets)
                            in (if i < length allAssets then Some (allAssets ! i) else None,
                                st1\<lparr> draws := draws st1 + 1 \<rparr>))
                      else if allowReuse then
                        (case find (\<lambda>a. Some (asset_id a) \<noteq> lastId) (getAllUnusedAssets {}) of
                           Some reuseCandidate \<Rightarrow> (Some reuseCandidate, st1)
                         | None \<Rightarrow>
                             (case getAllUnusedAssets {} of
                                [] \<Rightarrow> (None, st1)
                              | a # _ \<Rightarrow> (Some a, st1)))
                      else (None, st1))))"

text \<open>The secondary recovery: the unique keywords in turn, until one gives an asset.\<close>

fun recover ::
  "visual_env \<Rightarrow> bool \<Rightarrow> string option \<Rightarrow> string list \<Rightarrow> vstate \<Rightarrow> asset option \<times> vstate" where
  "recover env allowReuse lastId [] st = (None, st)"
| "recover env allowReuse lastId (kw # kws) st =
     (case selectUniqueAsset env (Some kw) allowReuse lastId st of
        (Some a, st') \<Rightarrow> (Some a, st')
      | (None, st') \<Rightarrow> recover env allowReuse lastId kws st')"

definition zooms :: "rat list" where "zooms = [1, 21 / 20, 11 / 10]"
definition transforms :: "string list" where
  "transforms = [''none'', ''left'', ''right'', ''up'', ''down'']"

text \<open>
  \<^verbatim>\<open>Math.random() > 0.5 ? xs[Math.floor(Math.random() * xs.length)] : dflt\<close>. For the
  two lists of the source, of 3 and of 5 elements, the index is below the length
  whatever the random number is.
\<close>

definition random_pick :: "visual_env \<Rightarrow> 'a list \<Rightarrow> 'a \<Rightarrow> nat \<Rightarrow> 'a \<times> nat" where
  "random_pick env xs dflt k =
     (if random env k > 1 / 2
      then (xs ! random_index env (k + 1) (length xs), k + 2)
      else (dflt, k + 1))"

definition generateTransform :: "visual_env \<Rightarrow> nat \<Rightarrow> transform \<times> nat" where
  "generateTransform env k =
     (let z = random_pick env zooms 1 k;
          p = random_pick env transforms ''none'' (snd z)
      in (\<lparr> t_zoom = fst z, t_pan = fst p \<rparr>, snd p))"

text \<open>
  \<^verbatim>\<open>minClipMs\<close>. The quotient is written exactly: it is a whole number or at least
  \<open>1 / totalUniqueAvailable\<close> away from one, far more than a rounding, so its ceiling is
  that of the double.
\<close>

definition min_clip_ms :: "int \<Rightarrow> nat \<Rightarrow> int" where
  "min_clip_ms totalDurationMs totalUniqueAvailable =
     (let desiredMinClipDuration =
            \<lceil>(of_int totalDurationMs :: rat) / of_nat (max 1 totalUniqueAvailable)\<rceil>
      in max 800 (min desiredMinClipDuration MAX_CLIP_MS))"

text \<open>
  \<^verbatim>\<open>Math.floor(Math.random() * (MAX_CLIP_MS - minClipMs + 1) + minClipMs)\<close>: the product
  and the sum are doubles.
\<close>

definition random_draw :: "rat \<Rightarrow> int \<Rightarrow> int" where
  "random_draw u minClipMs =
     \<lfloor>double (double (u * of_int (MAX_CLIP_MS - minClipMs + 1)) + of_int minClipMs)\<rfloor>"

text \<open>
  The duration of the next clip: the random draw, capped by what remains, then the
  lookahead on the tail.
\<close>

definition clip_duration :: "rat \<Rightarrow> int \<Rightarrow> int \<Rightarrow> int" where
  "clip_duration u minClipMs remainingTime =
     (let clipDuration0 = random_draw u minClipMs;
          clipDuration1 = (if clipDuration0 > remainingTime then remainingTime else clipDuration0);
          nextRemaining = remainingTime - clipDuration1
      in if nextRemaining > 0 \<and> nextRemaining < 800
         then (if remainingTime \<le> MAX_CLIP_MS then remainingTime else remainingTime - 800)
         else clipDuration1)"

text \<open>
  What one turn of the loop selects: the asset (with the secondary recovery), the
  transform and the local file. \<open>Inl\<close> is the \<^verbatim>\<open>throw\<close> of the turn.
\<close>

record selection =
  sel_asset :: asset
  sel_keyword :: "string option"
  sel_transform :: transform
  sel_path :: string

definition select_clip ::
  "visual_env \<Rightarrow> string list \<Rightarrow> bool \<Rightarrow> vstate \<Rightarrow> error + (selection \<times> vstate)" where
  "select_clip env kws allowReuseIfNeeded st =
     (let currentKeyword = (if kws = [] then None else Some (kws ! (keywordIdx st mod length kws)));
          lastId = (if v_timeline st = [] then None else Some (clip_id (last (v_timeline st))));
          r1 = selectUniqueAsset env currentKeyword allowReuseIfNeeded lastId st;
          r2 = (case fst r1 of
                  Some a \<Rightarrow> r1
                | None \<Rightarrow> recover env allowReuseIfNeeded lastId (uniqueKeywords kws) (snd r1))
      in case fst r2 of
           None \<Rightarrow> Inl (RanOutOfAssets (v_currentTimeMs st))
         | Some a \<Rightarrow>
             (let st2 = snd r2;
                  tr = generateTransform env (draws st2)
              in case local_file env (files st2) a of
                   None \<Rightarrow> Inl DownloadFailed
                 | Some localPath \<Rightarrow>
                     Inr (\<lparr> sel_asset = a, sel_keyword = currentKeyword,
                             sel_transform = fst tr, sel_path = localPath \<rparr>,
                          st2\<lparr> usedIds := insert (asset_id a) (usedIds st2),
                               keywordIdx := keywordIdx st2 + 1,
                               draws := snd tr,
                               files := files st2 + 1 \<rparr>)))"

text \<open>
  \<^verbatim>\<open>while (currentTimeMs < totalDurationMs)\<close>. \<^verbatim>\<open>minClipMs\<close> and \<^verbatim>\<open>allowReuseIfNeeded\<close>
  are constants of the call, computed from the total duration and the number of assets
  of the database. All times are whole milliseconds, as the duration of the audio that
  the scene processor passes is.
\<close>

function timeline_loop ::
  "visual_env \<Rightarrow> string list \<Rightarrow> int \<Rightarrow> nat \<Rightarrow> vstate \<Rightarrow> error + visual_clip list" where
  "timeline_loop env kws totalDurationMs totalUniqueAvailable st =
     (if v_currentTimeMs st < totalDurationMs then
        (let minClipMs = min_clip_ms totalDurationMs totalUniqueAvailable;
             allowReuseIfNeeded = (int totalUniqueAvailable * MAX_CLIP_MS < totalDurationMs);
             remainingTime = totalDurationMs - v_currentTimeMs st;
             clipDuration = clip_duration (random env (draws st)) minClipMs remainingTime
         in case select_clip env kws allowReuseIfNeeded (st\<lparr> draws := draws st + 1 \<rparr>) of
              Inl e \<Rightarrow> Inl e
            | Inr r \<Rightarrow>
                timeline_loop env kws totalDurationMs totalUniqueAvailable
                  ((snd r)\<lparr> v_timeline := v_timeline st @
                               [\<lparr> clip_id = asset_id (sel_asset (fst r)),
                                  source = provider (sel_asset (fst r)),
                                  file_path = sel_path (fst r),
                                  clip_start_ms = v_currentTimeMs st,
                                  clip_end_ms = v_currentTimeMs st + clipDuration,
                                  keyword = sel_keyword (fst r),
                                  clip_transform = sel_transform (fst r) \<rparr>],
                             v_currentTimeMs := v_currentTimeMs st + clipDuration \<rparr>))
      else Inr (v_timeline st))"
  by pat_completeness auto
termination
proof (relation "measure (\<lambda>(env, kws, totalMs, avail, st). nat (totalMs - v_currentTimeMs st))",
    goal_cases)
  case 1
  show ?case by simp
next
  case (2 env kws totalMs avail st minClipMs allowReuse remainingTime clipDuration r)
  have m: "800 \<le> minClipMs" "minClipMs \<le> 3000"
    using 2(2) by (simp_all add: min_clip_ms_def MAX_CLIP_MS_def Let_def)
  have ge: "of_int n \<le> double x" if "of_int n \<le> x" for n :: int and x :: rat
  proof -
    define p :: int where "p = 2 ^ find_shift x 0"
    have p: "0 < p" by (simp add: p_def)
    have "of_int n * of_int p \<le> x * (of_int p :: rat)"
      using that p by (intro mult_right_mono) simp_all
    then have "of_int (n * p) \<le> x * (of_int p :: rat)" by simp
    then have "n * p \<le> \<lfloor>x * of_int p\<rfloor>" by (simp only: le_floor_iff)
    moreover have "\<lfloor>x * of_int p\<rfloor> \<le> round_even (x * of_int p)"
      by (simp add: round_even_def Let_def)
    ultimately have "n * p \<le> round_even (x * of_int p)" by linarith
    then have "(of_int (n * p) :: rat) \<le> of_int (round_even (x * of_int p))"
      by (simp only: of_int_le_iff)
    then have "of_int n * (of_int p :: rat) \<le> of_int (round_even (x * of_int p))" by simp
    then have "of_int n \<le> of_int (round_even (x * of_int p)) / (of_int p :: rat)"
      using p by (simp add: pos_le_divide_eq)
    moreover have "(of_int p :: rat) = 2 ^ find_shift x 0" by (simp add: p_def)
    ultimately show ?thesis unfolding double_def by simp
  qed
  define d0 where "d0 = random_draw (random env (draws st)) minClipMs"
  have u: "0 \<le> random env (draws st)"
    by (simp add: random_def)
  have "of_int 0 \<le> random env (draws st) * of_int (MAX_CLIP_MS - minClipMs + 1)"
    using u m by (simp add: MAX_CLIP_MS_def)
  then have "of_int 0 \<le> double (random env (draws st) * of_int (MAX_CLIP_MS - minClipMs + 1))"
    by (rule ge)
  then have "of_int minClipMs
               \<le> double (random env (draws st) * of_int (MAX_CLIP_MS - minClipMs + 1))
                 + of_int minClipMs"
    by simp
  then have "of_int minClipMs
               \<le> double (double (random env (draws st) * of_int (MAX_CLIP_MS - minClipMs + 1))
                     + of_int minClipMs)"
    by (rule ge)
  then have f: "minClipMs \<le> d0"
    unfolding d0_def random_draw_def by (simp only: le_floor_iff)
  have r: "0 < remainingTime" using 2(1,4) by simp
  note c = 2(5) [unfolded clip_duration_def Let_def, folded d0_def]
  have "0 < clipDuration"
    using c f m r by (auto simp: MAX_CLIP_MS_def split: if_splits)
  with 2(1) show ?case by simp
qed

declare timeline_loop.simps [simp del]

text \<open>
  \<^verbatim>\<open>VisualService.generateTimeline\<close>. The number of assets of the database is never 0
  here, but the source asks.
\<close>

definition initial_vstate :: vstate where
  "initial_vstate =
     \<lparr> v_currentTimeMs = 0, usedIds = {}, keywordIdx = 0, v_timeline = [],
       draws = 0, lookups = 0, files = 0 \<rparr>"

definition visual_generateTimeline ::
  "visual_env \<Rightarrow> string list \<Rightarrow> int \<Rightarrow> error + visual_clip list" where
  "visual_generateTimeline env kws totalDurationMs =
     (let totalUniqueAvailable = length (getAllUnusedAssets {})
      in if totalUniqueAvailable = 0 then Inl NoAssetsInDatabase
         else timeline_loop env kws totalDurationMs totalUniqueAvailable initial_vstate)"

subsection \<open>The mock search of the stock provider\<close>

text \<open>\<^verbatim>\<open>s.split(' ')\<close>: the pieces between the single spaces.\<close>

fun split_space :: "string \<Rightarrow> string \<Rightarrow> string list" where
  "split_space [] cur = [cur]"
| "split_space (c # cs) cur =
     (if c = CHR '' '' then cur # split_space cs [] else split_space cs (cur @ [c]))"

text \<open>
  \<^verbatim>\<open>_mockSearch\<close>, what \<^verbatim>\<open>search\<close> answers when no key of the remote provider is
  configured. \<open>None\<close> is the query \<^verbatim>\<open>undefined\<close>.
\<close>

definition mockSearch :: "string option \<Rightarrow> asset list" where
  "mockSearch query =
     (case query of
        None \<Rightarrow> []
      | Some q \<Rightarrow>
          if q = [] then []
          else (let terms = split_space (toLowerCase q) []
                in filter (\<lambda>asset. list_ex (\<lambda>tag. list_ex (\<lambda>term. js_includes tag term
                                                                  \<or> js_includes term tag) terms)
                                           (tags asset))
                     MOCK_DB))"

subsection \<open>Properties of a visual timeline\<close>

definition clip_len :: "visual_clip \<Rightarrow> int" where
  "clip_len c = clip_end_ms c - clip_start_ms c"

text \<open>
  The timeline starts at 0, each clip starts where the one before it ended, and the
  last clip ends at \<open>totalMs\<close>.
\<close>

definition covers :: "int \<Rightarrow> visual_clip list \<Rightarrow> bool" where
  "covers totalMs cs =
     (cs \<noteq> [] \<and> clip_start_ms (hd cs) = 0
      \<and> (\<forall>i. Suc i < length cs \<longrightarrow> clip_start_ms (cs ! Suc i) = clip_end_ms (cs ! i))
      \<and> clip_end_ms (last cs) = totalMs)"

definition reuse_enabled :: "int \<Rightarrow> bool" where
  "reuse_enabled totalMs = (int (length MOCK_DB) * 3000 < totalMs)"

subsection \<open>The invariant of the loop\<close>

text \<open>Each clip but the first starts where the clip before it ends.\<close>

definition abutting :: "visual_clip list \<Rightarrow> bool" where
  "abutting cs = (\<forall>i. Suc i < length cs \<longrightarrow> clip_start_ms (cs ! Suc i) = clip_end_ms (cs ! i))"

text \<open>
  The invariant of the loop: the clips made so far start at 0, abut and end at the
  cursor, each lasts between 800 and 3001 ms, what remains is nothing or at least
  800 ms, and the identifiers of the clips are in \<^verbatim>\<open>usedIds\<close>, distinct unless reuse is
  allowed.
\<close>

definition vinv :: "int \<Rightarrow> bool \<Rightarrow> vstate \<Rightarrow> bool" where
  "vinv totalMs allowReuse st =
     ((v_timeline st = [] \<longrightarrow> v_currentTimeMs st = 0)
      \<and> (v_timeline st \<noteq> [] \<longrightarrow>
            clip_start_ms (hd (v_timeline st)) = 0
            \<and> clip_end_ms (last (v_timeline st)) = v_currentTimeMs st)
      \<and> abutting (v_timeline st)
      \<and> (\<forall>c \<in> set (v_timeline st). 800 \<le> clip_len c \<and> clip_len c \<le> 3001)
      \<and> (v_currentTimeMs st = totalMs \<or> 800 \<le> totalMs - v_currentTimeMs st)
      \<and> clip_id ` set (v_timeline st) \<subseteq> usedIds st
      \<and> (\<not> allowReuse \<longrightarrow> distinct (map clip_id (v_timeline st))))"

subsection \<open>A run with the largest random number\<close>

text \<open>
  \<^verbatim>\<open>Math.random()\<close> answers \<open>1 - 2^-52\<close> (0.9999999999999998, the largest number that
  the generator of V8 returns) at every call; no key of the remote provider is
  configured and the cache is empty, so that a lookup is a mock search; every asset gets
  its local file.
\<close>

definition max_env :: visual_env where
  "max_env =
     \<lparr> random_stream = (\<lambda>k. 2 ^ 53 - 2), lookup = (\<lambda>k kw. mockSearch kw),
       local_file = (\<lambda>k a. Some (''assets/clips/'' @ asset_id a @ ''.mp4'')) \<rparr>"

definition max_clip :: "string \<Rightarrow> int \<Rightarrow> int \<Rightarrow> visual_clip" where
  "max_clip i s e =
     \<lparr> clip_id = i, source = ''MockStock'', file_path = ''assets/clips/'' @ i @ ''.mp4'',
       clip_start_ms = s, clip_end_ms = e, keyword = Some ''money'',
       clip_transform = \<lparr> t_zoom = 11 / 10, t_pan = ''down'' \<rparr> \<rparr>"

definition max_timeline :: "visual_clip list" where
  "max_timeline =
     [max_clip ''mock_fin_1'' 0 3001, max_clip ''mock_fin_3'' 3001 6002,
      max_clip ''mock_fin_2'' 6002 9003, max_clip ''mock_fin_4'' 9003 12004,
      max_clip ''mock_fin_5'' 12004 15005, max_clip ''mock_tech_1'' 15005 18006,
      max_clip ''mock_tech_2'' 18006 21007, max_clip ''mock_tech_3'' 21007 24008,
      max_clip ''mock_tech_4'' 24008 26371]"

text \<open>The state of the loop of that run after \<open>k\<close> clips.\<close>

definition max_state :: "nat \<Rightarrow> vstate" where
  "max_state k =
     \<lparr> v_currentTimeMs = (if k = 0 then 0 else clip_end_ms (max_timeline ! (k - 1))),
       usedIds = clip_id ` set (take k max_timeline), keywordIdx = k,
       v_timeline = take k max_timeline, draws = 5 * k, lookups = k, files = k \<rparr>"
section \<open>Caption grouping on the four-word scenario\<close>

lemma pushGroup_ab:
  "pushGroup [] [mk_word ''a'' 0 300 False, mk_word ''b'' 300 600 False]
     = Inr [mk_caption ''a b'' 0 600 []]"
  by (simp add: pushGroup_def mk_word_def mk_caption_def emphasis_positions_def upt_rec)

lemma pushGroup_cd:
  "pushGroup gs [mk_word ''c'' 600 900 False, mk_word ''d'' 900 1200 False]
     = Inr (gs @ [mk_caption ''c d'' 600 1200 []])"
  by (simp add: pushGroup_def mk_word_def mk_caption_def emphasis_positions_def upt_rec)

lemma s5_run:
  "caption_generateTimeline s5_words
     = Inr [mk_caption ''a b'' 0 600 [], mk_caption ''c d'' 600 1200 []]"
proof -
  let ?a = "mk_word ''a'' 0 300 False" and ?b = "mk_word ''b'' 300 600 False"
  let ?c = "mk_word ''c'' 600 900 False" and ?d = "mk_word ''d'' 900 1200 False"
  have 1: "caption_step ?a False ([], []) = Inr ([], [?a])"
    by (simp add: caption_step_def mk_word_def)
  have 2: "caption_step ?b False ([], [?a]) = Inr ([], [?a, ?b])"
    by (simp add: caption_step_def mk_word_def)
  have 3: "caption_step ?c False ([], [?a, ?b]) = Inr ([mk_caption ''a b'' 0 600 []], [?c])"
    using pushGroup_ab by (simp add: caption_step_def Let_def) (simp add: mk_word_def)
  have 4: "caption_step ?d True ([mk_caption ''a b'' 0 600 []], [?c])
             = Inr ([mk_caption ''a b'' 0 600 [], mk_caption ''c d'' 600 1200 []], [?c, ?d])"
    using pushGroup_cd [of "[mk_caption ''a b'' 0 600 []]"]
    by (simp add: caption_step_def Let_def) (simp add: mk_word_def)
  show ?thesis
    by (simp add: caption_generateTimeline_def s5_words_def 1 2 3 4)
qed

text \<open>
  C1 (as stated): on the four words a, b, c, d of 300 ms each the grouper would emit
  the captions "a b c" (0 to 900) and "d" (900 to 1200). It does not: the third word
  would stretch the open group to 900 ms, beyond the 800 ms limit, so the group is
  closed before it.
\<close>

theorem C1_counterexample:
  "caption_generateTimeline s5_words
     \<noteq> Inr [mk_caption ''a b c'' 0 900 [], mk_caption ''d'' 900 1200 []]"
  by (simp add: s5_run mk_caption_def)

text \<open>
  C1 (amended): on the four words a, b, c, d of 300 ms each the grouper emits exactly
  two captions, "a b" from 0 to 600 ms and "c d" from 600 to 1200 ms, neither with an
  emphasised word.
\<close>

theorem C1_s5_captions:
  "caption_generateTimeline s5_words
     = Inr [mk_caption ''a b'' 0 600 [], mk_caption ''c d'' 600 1200 []]"
  by (rule s5_run)

section \<open>Frame of a status update\<close>

lemma default_null_supplied: "default_null v \<noteq> JNull \<longleftrightarrow> supplied v"
  by (simp add: default_null_def supplied_def)

lemma default_null_id: "supplied v \<Longrightarrow> default_null v = v"
  by (simp add: default_null_def supplied_def)

lemma truthy_default_null: "truthy (default_null v) \<Longrightarrow> supplied v"
  by (cases v) (simp_all add: default_null_def supplied_def)

lemma updateJobStatus_job:
  assumes "jobs q jobId = Some j"
  shows "\<exists>j'. jobs (updateJobStatus q jobId st res prog eta msg) jobId = Some j'
           \<and> j' = j\<lparr> status := st, result := result j', progress := progress j',
                     eta_seconds := eta_seconds j', message := message j' \<rparr>
           \<and> (result j' \<noteq> result j \<longrightarrow> supplied res \<and> result j' = res)
           \<and> (progress j' \<noteq> progress j \<longrightarrow> supplied prog \<and> progress j' = prog)
           \<and> (eta_seconds j' \<noteq> eta_seconds j \<longrightarrow> supplied eta \<and> eta_seconds j' = eta)
           \<and> (message j' \<noteq> message j \<longrightarrow> supplied msg \<and> message j' = msg)"
proof -
  have r: "truthy (default_null res) \<Longrightarrow> supplied res \<and> default_null res = res"
    using truthy_default_null default_null_id by blast
  have p: "\<And>v. default_null v \<noteq> JNull \<Longrightarrow> supplied v \<and> default_null v = v"
    using default_null_supplied default_null_id by blast
  show ?thesis
    using assms r p [of prog] p [of eta] p [of msg]
    by (simp add: updateJobStatus_def Let_def)
qed

lemma updateJobStatus_others:
  "k \<noteq> jobId \<Longrightarrow> jobs (updateJobStatus q jobId st res prog eta msg) k = jobs q k"
  by (simp add: updateJobStatus_def Let_def split: option.splits)

lemma updateJobStatus_queue:
  "queue (updateJobStatus q jobId st res prog eta msg) = queue q"
  by (simp add: updateJobStatus_def Let_def split: option.splits)

text \<open>
  C10: an update of an existing job changes at most its fields status, result,
  progress, eta_seconds and message (the job after the update is the job before it with
  those five fields overwritten, so id, topic, duration_seconds, tone, dry_run and
  created_at are as before); each of result, progress, eta_seconds and message differs
  from its old value only if the corresponding argument was supplied (not null, not
  left out), and then holds that argument; an update whose result argument is null
  leaves the stored result as it was. No other job and not the FIFO is touched.
\<close>

theorem C10_update_frame:
  assumes "jobs q jobId = Some j"
  shows "\<exists>j'. jobs (updateJobStatus q jobId st res prog eta msg) jobId = Some j'
           \<and> j' = j\<lparr> status := st, result := result j', progress := progress j',
                     eta_seconds := eta_seconds j', message := message j' \<rparr>
           \<and> job_id j' = job_id j \<and> topic j' = topic j
           \<and> duration_seconds j' = duration_seconds j \<and> tone j' = tone j
           \<and> dry_run j' = dry_run j \<and> created_at j' = created_at j
           \<and> (result j' \<noteq> result j \<longrightarrow> supplied res \<and> result j' = res)
           \<and> (progress j' \<noteq> progress j \<longrightarrow> supplied prog \<and> progress j' = prog)
           \<and> (eta_seconds j' \<noteq> eta_seconds j \<longrightarrow> supplied eta \<and> eta_seconds j' = eta)
           \<and> (message j' \<noteq> message j \<longrightarrow> supplied msg \<and> message j' = msg)
           \<and> (res = JNull \<longrightarrow> result j' = result j)
           \<and> (\<forall>k. k \<noteq> jobId \<longrightarrow>
                 jobs (updateJobStatus q jobId st res prog eta msg) k = jobs q k)
           \<and> queue (updateJobStatus q jobId st res prog eta msg) = queue q"
proof -
  obtain j' where a: "jobs (updateJobStatus q jobId st res prog eta msg) jobId = Some j'"
    and b: "j' = j\<lparr> status := st, result := result j', progress := progress j',
                     eta_seconds := eta_seconds j', message := message j' \<rparr>"
    and c: "result j' \<noteq> result j \<longrightarrow> supplied res \<and> result j' = res"
           "progress j' \<noteq> progress j \<longrightarrow> supplied prog \<and> progress j' = prog"
           "eta_seconds j' \<noteq> eta_seconds j \<longrightarrow> supplied eta \<and> eta_seconds j' = eta"
           "message j' \<noteq> message j \<longrightarrow> supplied msg \<and> message j' = msg"
    using updateJobStatus_job [OF assms, of st res prog eta msg] by blast
  have d: "job_id j' = job_id j" "topic j' = topic j"
          "duration_seconds j' = duration_seconds j" "tone j' = tone j"
          "dry_run j' = dry_run j" "created_at j' = created_at j"
    by (subst b, simp)+
  have e: "res = JNull \<longrightarrow> result j' = result j"
    using c(1) by (auto simp: supplied_def)
  show ?thesis
    using a b c d e updateJobStatus_others [of _ jobId q st res prog eta msg]
      updateJobStatus_queue [of q jobId st res prog eta msg]
    by blast
qed

theorem C10_update_frame_witness:
  "jobs demo_queue ''j1'' = Some demo_job
   \<and> (\<exists>j'. jobs (updateJobStatus demo_queue ''j1'' (JStr ''PROCESSING'') JNull (JNum 25)
                   JUndefined JUndefined) ''j1'' = Some j'
          \<and> result j' = result demo_job \<and> topic j' = topic demo_job
          \<and> (progress j' \<noteq> progress demo_job \<longrightarrow> supplied (JNum 25) \<and> progress j' = JNum 25))"
proof -
  have h: "jobs demo_queue ''j1'' = Some demo_job"
    by (simp add: demo_queue_def)
  show ?thesis
    using h C10_update_frame [OF h, of "JStr ''PROCESSING''" JNull "JNum 25" JUndefined JUndefined]
    by auto
qed

section \<open>Responses of POST /api/generate\<close>












section \<open>A retry loop that never ends\<close>

lemma callModel_loop_429_never_returns:
  assumes "callModel_loop conv model retries s = Some r"
  shows "\<not> (model = always_429 \<and> 2 \<le> length (apiKeys (service s)) \<and> attempt s < retries)"
proof (rule callModel_loop.raw_induct
    [where P = "\<lambda>conv model retries s r.
       \<not> (model = always_429 \<and> 2 \<le> length (apiKeys (service s)) \<and> attempt s < retries)",
     OF _ assms], goal_cases)
  case (1 f conv model retries s r)
  show ?case
  proof
    assume h: "model = always_429 \<and> 2 \<le> length (apiKeys (service s)) \<and> attempt s < retries"
    let ?s1 = "s\<lparr> calls := calls s + 1, lastError := JNum 429 \<rparr>"
    let ?s2 = "?s1\<lparr> service := snd (rotateKey (service ?s1)),
                     attempt := (attempt ?s1 - 1) + 1 \<rparr>"
    from h have rot: "fst (rotateKey (service ?s1))"
      by (simp add: rotateKey_def)
    from 1(2) h rot have "f conv model retries ?s2 = Some r"
      by (simp add: always_429_def js_ge_def js_lt_def Let_def)
    from 1(1) [OF this] h show False
      by (auto simp: rotateKey_def)
  qed
qed

text \<open>
  C9 (the code at the failing input): with two keys configured and a model that answers
  429 to every call, \<^verbatim>\<open>_callModel\<close> never returns and never throws: each 429 rotates
  the key and leaves the attempt counter where it was.
\<close>

theorem C9_two_keys_always_429_diverges:
  "callModel conv always_429 two_keys = None"
proof (cases "callModel conv always_429 two_keys")
  case None
  then show ?thesis .
next
  case (Some r)
  then have "callModel_loop conv always_429 3
               \<lparr> service = two_keys, calls = 0, attempt = 0, lastError = JNull \<rparr> = Some r"
    by (simp add: callModel_def)
  from callModel_loop_429_never_returns [OF this] show ?thesis
    by (simp add: two_keys_def)
qed

section \<open>The visual gate reads properties no clip has\<close>

lemma check_clip_none: "check_clip conv ic = []"
  by (simp add: check_clip_def clip_prop_def js_gt_def js_lt_def)

lemma validateVisuals_accepts_all:
  "validateVisuals conv timeline = \<lparr> isValid = True, errors = [] \<rparr>"
  by (simp add: validateVisuals_def check_clip_none clip_prop_def js_div_count_def Let_def)

text \<open>
  C6 (the code at the failing input): the timeline of one clip from 0 to 360 ms, 440 ms
  short of the 800 ms minimum, passes the gate with no error. The gate compares
  \<^verbatim>\<open>clip.durationMs\<close> and \<^verbatim>\<open>endTimeMs\<close>, which no clip of the builder has, so every
  comparison is against \<^verbatim>\<open>undefined\<close> and fails.
\<close>

theorem C6_short_clip_passes_gate:
  "clip_end_ms short_scene_clip - clip_start_ms short_scene_clip = 360
   \<and> validateVisuals conv [short_scene_clip] = \<lparr> isValid = True, errors = [] \<rparr>"
  by (simp add: validateVisuals_accepts_all) (simp add: short_scene_clip_def)

section \<open>The timing model refines its specification\<close>

lemma round_add_of_int: "round (c + of_int k) = round c + k" for c :: rat
proof -
  have a: "c + of_int k + 1 / 2 = (c + 1 / 2) + of_int k" by simp
  have b: "\<lfloor>(c + 1 / 2) + of_int k\<rfloor> = \<lfloor>c + 1 / 2\<rfloor> + k"
    by (rule floor_add_int [symmetric])
  show ?thesis unfolding round_def a by (rule b)
qed

lemma round_add_ge1: "1 \<le> d \<Longrightarrow> round c < round (c + d)" for c d :: rat
proof -
  assume "1 \<le> d"
  then have "c + 1 \<le> c + d" by simp
  then have "round (c + 1) \<le> round (c + d)" by (rule round_mono)
  moreover have "round (c + 1) = round c + 1"
    using round_add_of_int [of c 1] by simp
  ultimately show ?thesis by simp
qed

lemma round_add_ge0: "0 \<le> d \<Longrightarrow> round c \<le> round (c + d)" for c d :: rat
  by (rule round_mono) simp

lemma checkEmphasis_spec: "checkEmphasis w = spec_trigger w"
  by (simp add: checkEmphasis_def spec_trigger_def list_ex_iff Let_def)

lemma word_step_eq:
  "word_step m w (c, d, ts) =
     (c + spec_word_duration m w, d + spec_word_duration m w,
      ts @ [\<lparr> word = strip_non_word w, start_ms = round c,
               end_ms = round (c + spec_word_duration m w), emphasis = spec_trigger w \<rparr>])"
  by (simp add: word_step_def spec_word_duration_def checkEmphasis_spec Let_def)







lemma clamp_eq: "min (max x 150) 450 = spec_pause (x * (20 / 3))" for x :: rat
  by (simp add: spec_pause_def min_def max_def)









lemma split_stop_now: "split_ws ''Stop now'' = [''Stop'', ''now'']"
  by code_simp


lemma emph_words:
  "checkEmphasis ''Stop'' = True" "checkEmphasis ''now'' = False" "checkEmphasis ''Go'' = False"
  by code_simp+

lemma strip_words:
  "strip_non_word ''Stop'' = ''Stop''" "strip_non_word ''now'' = ''now''"
  "strip_non_word ''Go'' = ''Go''"
  by code_simp+

lemma stop_now_timing:
  "voice_timing (ScriptText ''Stop now'')
     = (774, [mk_word ''Stop'' 0 414 True, mk_word ''now'' 414 774 False])"
  by (simp add: voice_timing_def allText_def section_step_def split_stop_now word_step_def
        emph_words strip_words mk_word_def Let_def)






lemma ordered_snoc:
  assumes "ordered_timestamps ts" "start_ms t < end_ms t" "\<forall>u \<in> set ts. end_ms u \<le> start_ms t"
  shows "ordered_timestamps (ts @ [t])"
proof -
  have a: "\<forall>i < length (ts @ [t]). start_ms ((ts @ [t]) ! i) < end_ms ((ts @ [t]) ! i)"
    using assms(1,2) by (auto simp: ordered_timestamps_def nth_append)
  have b: "end_ms ((ts @ [t]) ! i) \<le> start_ms ((ts @ [t]) ! Suc i)"
    if "Suc i < length (ts @ [t])" for i
  proof (cases "Suc i < length ts")
    case True
    with assms(1) show ?thesis by (simp add: ordered_timestamps_def nth_append)
  next
    case False
    with that have i: "Suc i = length ts" by simp
    then have "ts ! i \<in> set ts" by simp
    with assms(3) i show ?thesis by (simp add: nth_append)
  qed
  from a b show ?thesis unfolding ordered_timestamps_def by blast
qed

lemma spec_word_duration_ge1:
  "m \<in> {4 / 5, 1, 6 / 5} \<Longrightarrow> 1 \<le> spec_word_duration m w"
  by (auto simp: spec_word_duration_def)

lemma word_step_inv:
  assumes "m \<in> {4 / 5, 1, 6 / 5}" "timing_inv (c, ts)"
  shows "timing_inv (fst (word_step m w (c, d, ts)), snd (snd (word_step m w (c, d, ts))))
         \<and> timing_tight (fst (word_step m w (c, d, ts)), snd (snd (word_step m w (c, d, ts))))"
proof -
  let ?d = "spec_word_duration m w"
  let ?t = "\<lparr> word = strip_non_word w, start_ms = round c, end_ms = round (c + ?d),
              emphasis = spec_trigger w \<rparr>"
  have d: "1 \<le> ?d" using assms(1) by (rule spec_word_duration_ge1)
  have lt: "round c < round (c + ?d)" using d by (rule round_add_ge1)
  have o: "ordered_timestamps (ts @ [?t])"
    using assms(2) lt by (intro ordered_snoc) (simp_all add: timing_inv_def)
  have b: "\<forall>u \<in> set (ts @ [?t]). end_ms u \<le> round (c + ?d)"
    using assms(2) lt by (auto simp: timing_inv_def)
  show ?thesis
    using o b by (simp add: word_step_eq timing_inv_def timing_tight_def)
qed

lemma fold_word_step_inv:
  assumes "m \<in> {4 / 5, 1, 6 / 5}"
  shows "timing_inv (c, ts) \<Longrightarrow>
         timing_inv (fst (fold (word_step m) ws (c, d, ts)),
                     snd (snd (fold (word_step m) ws (c, d, ts))))
         \<and> (ws \<noteq> [] \<longrightarrow>
              timing_tight (fst (fold (word_step m) ws (c, d, ts)),
                            snd (snd (fold (word_step m) ws (c, d, ts)))))"
proof (induction ws rule: rev_induct)
  case Nil
  then show ?case by simp
next
  case (snoc w ws)
  obtain c' d' ts' where r: "fold (word_step m) ws (c, d, ts) = (c', d', ts')"
    by (cases "fold (word_step m) ws (c, d, ts)") auto
  with snoc have "timing_inv (c', ts')" by simp
  from word_step_inv [OF assms this, of w d'] r show ?case by simp
qed


lemma split_go_nonempty: "split_go s cur \<noteq> []"
  by (induction s cur rule: split_go.induct) auto

lemma split_ws_nonempty: "split_ws s \<noteq> []"
  by (simp add: split_ws_def split_go_nonempty)

lemma timing_inv_pause: "timing_inv (c, ts) \<Longrightarrow> 0 \<le> p \<Longrightarrow> timing_inv (c + p, ts)"
  using round_add_ge0 [of p c] by (fastforce simp: timing_inv_def)

lemma section_step_inv:
  assumes "timing_inv st"
  shows "timing_inv (section_step n (i, sec) st)
         \<and> (\<not> int i < int n - 1 \<longrightarrow> timing_tight (section_step n (i, sec) st))"
proof -
  define m :: rat where "m = (if int i = int n - 1 then 6 / 5 else if i = 0 then 4 / 5 else 1)"
  define r where "r = fold (word_step m) (split_ws sec) (fst st, 0, snd st)"
  have m: "m \<in> {4 / 5, 1, 6 / 5}" by (simp add: m_def)
  have st: "timing_inv (fst st, snd st)" using assms by simp
  have r: "timing_inv (fst r, snd (snd r))" "timing_tight (fst r, snd (snd r))"
    using fold_word_step_inv [OF m st, of "split_ws sec" 0] split_ws_nonempty [of sec]
    by (simp_all add: r_def)
  have p: "0 \<le> min (max (fst (snd r) * (3 / 20)) 150) (450 :: rat)" by simp
  have e: "section_step n (i, sec) st =
             (if int i < int n - 1
              then (fst r + min (max (fst (snd r) * (3 / 20)) 150) 450, snd (snd r))
              else (fst r, snd (snd r)))"
    by (simp add: section_step_def Let_def r_def m_def)
  show ?thesis
    unfolding e using r timing_inv_pause [OF r(1) p] by simp
qed

lemma fold_section_inv:
  "timing_inv st \<Longrightarrow> timing_inv (fold (section_step n) xs st)"
proof (induction xs arbitrary: st)
  case Nil
  then show ?case by simp
next
  case (Cons x xs)
  obtain i sec where x: "x = (i, sec)" by (cases x)
  from section_step_inv [OF Cons.prems, of n i sec] have "timing_inv (section_step n x st)"
    by (simp add: x)
  from Cons.IH [OF this] show ?case by simp
qed

lemma timing_inv_init: "timing_inv (0, [])"
  by (simp add: timing_inv_def ordered_timestamps_def)

lemma voice_timing_inv:
  "timing_inv (voice_timing d)
   \<and> (allText d \<noteq> [] \<longrightarrow> timing_tight (voice_timing d))
   \<and> (allText d = [] \<longrightarrow> voice_timing d = (0, []))"
proof (cases "allText d" rule: rev_cases)
  case Nil
  then show ?thesis by (simp add: voice_timing_def timing_inv_init)
next
  case (snoc xs x)
  let ?n = "length (allText d)"
  let ?st = "fold (section_step ?n) (enumerate 0 xs) (0, [])"
  have e: "voice_timing d = section_step ?n (length xs, x) ?st"
    by (simp add: voice_timing_def snoc enumerate_append_eq)
  have i: "timing_inv ?st" by (rule fold_section_inv [OF timing_inv_init])
  have l: "\<not> int (length xs) < int ?n - 1" by (simp add: snoc)
  from section_step_inv [OF i, of ?n "length xs" x] l show ?thesis
    unfolding e using snoc by simp
qed

lemma tight_Max:
  assumes "timing_inv (c, ts)" "timing_tight (c, ts)"
  shows "Max (end_ms ` set ts) = round c"
proof (rule Max_eqI)
  show "finite (end_ms ` set ts)" by simp
  show "\<And>y. y \<in> end_ms ` set ts \<Longrightarrow> y \<le> round c"
    using assms(1) by (auto simp: timing_inv_def)
  have "last ts \<in> set ts" using assms(2) by (simp add: timing_tight_def)
  then have "end_ms (last ts) \<in> end_ms ` set ts" by (rule imageI)
  then show "round c \<in> end_ms ` set ts"
    using assms(2) by (simp add: timing_tight_def)
qed

text \<open>
  C3: for every input (a text or a script object), in the timestamps returned every word
  has start_ms < end_ms, every word ends no later than the next one starts, and
  duration_ms is the largest end_ms of the list (0 when the list is empty, which
  happens only for a script object with no text at all). All of this is about the
  rounded values that are emitted.
\<close>

theorem C3_timestamps_ordered:
  "ordered_timestamps (timestamps (generateVoiceover p d))
   \<and> (timestamps (generateVoiceover p d) \<noteq> [] \<longrightarrow>
        duration_ms (generateVoiceover p d)
          = Max (end_ms ` set (timestamps (generateVoiceover p d))))
   \<and> (timestamps (generateVoiceover p d) = [] \<longrightarrow> duration_ms (generateVoiceover p d) = 0)"
proof -
  obtain c ts where v: "voice_timing d = (c, ts)" by (cases "voice_timing d")
  have r: "timestamps (generateVoiceover p d) = ts" "duration_ms (generateVoiceover p d) = round c"
    by (simp_all add: generateVoiceover_def buildResult_def v)
  have i: "timing_inv (c, ts)" using voice_timing_inv [of d] v by simp
  have o: "ordered_timestamps ts" using i by (simp add: timing_inv_def)
  have m: "ts \<noteq> [] \<longrightarrow> round c = Max (end_ms ` set ts)"
  proof
    assume "ts \<noteq> []"
    with voice_timing_inv [of d] v have "timing_tight (c, ts)" by auto
    from tight_Max [OF i this] show "round c = Max (end_ms ` set ts)" by simp
  qed
  have z: "ts = [] \<longrightarrow> round c = 0"
    using voice_timing_inv [of d] v by (auto simp: timing_tight_def)
  show ?thesis unfolding r using o m z by blast
qed

theorem C3_timestamps_ordered_witness:
  "timestamps (generateVoiceover ''a.wav'' (ScriptText ''Stop now''))
     = [mk_word ''Stop'' 0 414 True, mk_word ''now'' 414 774 False]
   \<and> ordered_timestamps [mk_word ''Stop'' 0 414 True, mk_word ''now'' 414 774 False]
   \<and> duration_ms (generateVoiceover ''a.wav'' (ScriptText ''Stop now''))
       = Max (end_ms ` set [mk_word ''Stop'' 0 414 True, mk_word ''now'' 414 774 False])"
  using C3_timestamps_ordered [of "''a.wav''" "ScriptText ''Stop now''"] stop_now_timing
  by (simp add: generateVoiceover_def buildResult_def)

section \<open>What the script gate accepts\<close>





lemma s3_hook_banned:
  "js_includes (toLowerCase ''In this video we explain coffee'') ''in this video''"
  by code_simp

subsection \<open>The pieces of a split and the words of a text\<close>






text \<open>
  A top-level \<^verbatim>\<open>hook\<close> property takes precedence over the first scene: the first scene
  of this script passes every rule, the script does not.
\<close>

lemma top_level_hook_takes_precedence:
  "validateScript top_level_hook_script = \<lparr> isValid = False, errors = [HookLacksCuriosity] \<rparr>"
  by code_simp



section \<open>A valid edit plan satisfies I4\<close>

lemma update_first_Some:
  "update_first P f xs = Some ys \<Longrightarrow> \<exists>i < length xs. P (xs ! i) \<and> ys = xs[i := f (xs ! i)]"
proof (induction xs arbitrary: ys)
  case Nil
  then show ?case by simp
next
  case (Cons x xs)
  show ?case
  proof (cases "P x")
    case True
    with Cons.prems have "ys = (x # xs)[0 := f ((x # xs) ! 0)]" by simp
    with True show ?thesis by (intro exI [of _ 0]) simp
  next
    case False
    with Cons.prems obtain zs where z: "update_first P f xs = Some zs" "ys = x # zs"
      by (auto split: option.splits)
    from Cons.IH [OF z(1)] obtain i where "i < length xs" "P (xs ! i)" "zs = xs[i := f (xs ! i)]"
      by blast
    with z(2) show ?thesis by (intro exI [of _ "Suc i"]) simp
  qed
qed

lemma same_frame_refl: "same_frame ps ps"
  by (simp add: same_frame_def)

lemma same_frame_trans: "same_frame a b \<Longrightarrow> same_frame b c \<Longrightarrow> same_frame a c"
  by (simp add: same_frame_def)

lemma same_frame_interrupt:
  "i < length ps \<Longrightarrow> same_frame ps (ps[i := interrupt (ps ! i)])"
  by (simp add: same_frame_def interrupt_def nth_list_update)

lemma window_hit_frame: "same_frame ps ps' \<Longrightarrow> window_hit a b ps \<Longrightarrow> window_hit a b ps'"
  unfolding same_frame_def window_hit_def by metis

lemma update_first_hit:
  assumes "update_first (window_candidate a b) interrupt ps = Some ps'"
  shows "same_frame ps ps' \<and> window_hit a b ps'"
proof -
  from update_first_Some [OF assms] obtain i where
    i: "i < length ps" "window_candidate a b (ps ! i)" "ps' = ps[i := interrupt (ps ! i)]"
    by blast
  have "window_hit a b ps'"
    unfolding window_hit_def using i
    by (intro exI [of _ i]) (simp add: window_candidate_def interrupt_def)
  with same_frame_interrupt [OF i(1)] i(3) show ?thesis by simp
qed

lemma pattern_loop_windows:
  "pattern_loop T w ps = Inr ps' \<Longrightarrow>
     same_frame ps ps'
     \<and> (\<forall>j :: nat. w + 2500 * int j < T \<longrightarrow>
           window_hit (w + 2500 * int j) (min (w + 2500 * int j + 2500) T) ps')"
proof (induction T w ps rule: pattern_loop.induct)
  case (1 T w ps)
  show ?case
  proof (cases "w < T")
    case False
    with "1.prems" have "ps' = ps" by simp
    with False show ?thesis by (auto simp: same_frame_refl)
  next
    case True
    let ?we = "min (w + PATTERN_INTERVAL_MS) T"
    from True "1.prems" obtain ps1 where
      u: "update_first (window_candidate w ?we) interrupt ps = Some ps1"
      and r: "pattern_loop T (w + PATTERN_INTERVAL_MS) ps1 = Inr ps'"
      by (auto simp: Let_def split: option.splits)
    from update_first_hit [OF u] have h: "same_frame ps ps1" "window_hit w ?we ps1" by simp_all
    from "1.IH" [OF True refl u r] have
      ih: "same_frame ps1 ps'"
          "\<And>j :: nat. w + PATTERN_INTERVAL_MS + 2500 * int j < T \<Longrightarrow>
             window_hit (w + PATTERN_INTERVAL_MS + 2500 * int j)
               (min (w + PATTERN_INTERVAL_MS + 2500 * int j + 2500) T) ps'"
      by simp_all
    have "window_hit (w + 2500 * int j) (min (w + 2500 * int j + 2500) T) ps'"
      if "w + 2500 * int j < T" for j :: nat
    proof (cases j)
      case 0
      with window_hit_frame [OF ih(1) h(2)] show ?thesis
        by (simp add: PATTERN_INTERVAL_MS_def)
    next
      case (Suc j')
      with that ih(2) [of j'] show ?thesis
        by (simp add: PATTERN_INTERVAL_MS_def algebra_simps)
    qed
    with same_frame_trans [OF h(1) ih(1)] show ?thesis by blast
  qed
qed


lemma truncate_fields:
  "e_start_ms (edit_segment.truncate p) = e_start_ms p"
  "e_end_ms (edit_segment.truncate p) = e_end_ms p"
  "zoom (edit_segment.truncate p) = zoom p"
  "e_reason (edit_segment.truncate p) = e_reason p"
  by (simp_all add: edit_segment.truncate_def)

lemma gap_errors_contiguous:
  "fst (gap_errors ps e) = [] \<Longrightarrow> contiguous_from e (map edit_segment.truncate ps)"
  by (induction ps arbitrary: e) (auto simp: Let_def truncate_fields split: if_splits)

lemma gap_errors_end:
  "snd (gap_errors ps e) = plan_end e (map edit_segment.truncate ps)"
  by (induction ps arbitrary: e) (auto simp: Let_def truncate_fields)

lemma length_errors_none:
  "concat (map length_errors ps) = [] \<Longrightarrow> \<forall>p \<in> set ps. e_end_ms p - e_start_ms p \<le> 3000"
  by (auto simp: length_errors_def MAX_SEGMENT_MS_def split: if_splits)

lemma zoom_errors_none:
  "concat (map zoom_errors ps) = [] \<Longrightarrow> \<forall>p \<in> set ps. zoom p \<noteq> 1 \<longrightarrow> e_reason p = Emphasis"
  by (auto simp: zoom_errors_def BASE_ZOOM_def split: if_splits)

lemma sort_truncate_sorted:
  "sort_key e_start_ms (map edit_segment.truncate (sort_key e_start_ms ps))
     = map edit_segment.truncate (sort_key e_start_ms ps)"
proof (rule sort_key_id_if_sorted)
  have "map e_start_ms (map edit_segment.truncate (sort_key e_start_ms ps))
          = map e_start_ms (sort_key e_start_ms ps)"
    by (simp add: truncate_fields comp_def)
  then show "sorted (map e_start_ms (map edit_segment.truncate (sort_key e_start_ms ps)))"
    by (simp only: sorted_sort_key)
qed

lemma window_hit_set:
  assumes "window_hit a b ps"
  shows "\<exists>p \<in> set (map edit_segment.truncate (sort_key e_start_ms ps)).
           e_reason p = PatternInterrupt \<and> e_start_ms p < b \<and> e_end_ms p > a"
proof -
  from assms obtain i where i: "i < length ps" "e_reason (ps ! i) = PatternInterrupt"
    "e_start_ms (ps ! i) < b" "e_end_ms (ps ! i) > a"
    unfolding window_hit_def by blast
  then have "ps ! i \<in> set (sort_key e_start_ms ps)" by simp
  then have "edit_segment.truncate (ps ! i)
               \<in> set (map edit_segment.truncate (sort_key e_start_ms ps))"
    by (simp del: set_sort)
  with i show ?thesis by (metis truncate_fields(1,2,4))
qed

lemma finish_plan_I4:
  assumes "isValid (finish_plan ps0 T)"
  shows "\<exists>ps. plan (finish_plan ps0 T) = Some ps \<and> I4 T ps"
proof (cases "pattern_loop T 0 ps0")
  case (Inl e)
  with assms show ?thesis by (simp add: finish_plan_def invalid_result_def)
next
  case (Inr ps1)
  let ?v = "edit_validate ps1 T"
  let ?sorted = "sort_key e_start_ms ps1"
  let ?plan = "map edit_segment.truncate ?sorted"
  from assms Inr have v: "isValid (fst ?v)"
    by (auto simp: finish_plan_def invalid_result_def Let_def split: if_splits)
  with Inr have pl: "plan (finish_plan ps0 T) = Some ?plan"
    by (simp add: finish_plan_def Let_def edit_validate_def)
  from v have e: "concat (map length_errors ps1) = []" "fst (gap_errors ?sorted 0) = []"
    "\<not> \<bar>snd (gap_errors ?sorted 0) - T\<bar> > 200" "concat (map zoom_errors ?sorted) = []"
    by (auto simp: edit_validate_def Let_def split: if_splits)
  have c1: "contiguous_from 0 (sort_key e_start_ms ?plan)"
    using gap_errors_contiguous [OF e(2)] by (simp only: sort_truncate_sorted)
  have c2: "\<bar>plan_end 0 (sort_key e_start_ms ?plan) - T\<bar> \<le> 200"
    using e(3) by (simp add: sort_truncate_sorted gap_errors_end)
  have c3: "\<forall>p \<in> set ?plan. e_end_ms p - e_start_ms p \<le> 3000"
    using length_errors_none [OF e(1)] by (auto simp: truncate_fields)
  have c4: "\<forall>p \<in> set ?plan. zoom p \<noteq> 1 \<longrightarrow> e_reason p = Emphasis"
    using zoom_errors_none [OF e(4)] by (auto simp: truncate_fields)
  have c5: "window_has_interrupt T ?plan k" if k: "0 \<le> k \<and> k * 2500 < T" for k
  proof -
    from k have "0 + 2500 * int (nat k) < T" by simp
    with pattern_loop_windows [OF Inr]
    have "window_hit (0 + 2500 * int (nat k)) (min (0 + 2500 * int (nat k) + 2500) T) ps1"
      by blast
    with k have "window_hit (k * 2500) (min ((k + 1) * 2500) T) ps1"
      by (simp add: algebra_simps)
    from window_hit_set [OF this] show ?thesis
      unfolding window_has_interrupt_def .
  qed
  from c1 c2 c3 c4 c5 have "I4 T ?plan" unfolding I4_def by blast
  with pl show ?thesis by blast
qed

lemma demo_edit_plan:
  "generateEditPlan demo_inputs = Inr \<lparr> isValid = True, errors = [], plan = Some demo_plan \<rparr>"
  by code_simp

lemma demo_duration: "duration_ms demo_audio = 1026"
  by (simp add: demo_audio_def buildResult_def)

text \<open>
  C7: whenever the builder returns isValid = true, the plan it returns satisfies I4
  against the duration of the audio: sorted by start_ms the segments are contiguous
  within 20 ms from 0 and end within 200 ms of the duration; no segment is longer than
  3000 ms; a zoom other than 1.0 comes only with reason = emphasis; and every window
  [2500 k, 2500 (k + 1)) that begins before the duration, cut at the duration, is
  intersected by a segment with reason = pattern_interrupt.
\<close>

theorem C7_valid_plan_satisfies_I4:
  assumes "generateEditPlan inputs = Inr r" "isValid r"
  shows "\<exists>a ps. in_audio inputs = Some a \<and> plan r = Some ps \<and> I4 (duration_ms a) ps"
proof -
  from assms obtain a cs vs ps0 where
    i: "in_audio inputs = Some a" "in_captions inputs = Some cs" "in_visuals inputs = Some vs"
       "build_entries a cs vs = Inr ps0" "r = finish_plan ps0 (duration_ms a)"
    by (auto simp: generateEditPlan_def invalid_result_def split: option.splits sum.splits)
  from finish_plan_I4 [of ps0 "duration_ms a"] assms(2) i(5) i(1) show ?thesis by blast
qed

theorem C7_valid_plan_satisfies_I4_witness:
  "generateEditPlan demo_inputs = Inr \<lparr> isValid = True, errors = [], plan = Some demo_plan \<rparr>
   \<and> I4 1026 demo_plan"
proof -
  let ?r = "\<lparr> isValid = True, errors = [], plan = Some demo_plan \<rparr>"
  have v: "isValid ?r" by simp
  from C7_valid_plan_satisfies_I4 [OF demo_edit_plan v]
  have "I4 (duration_ms demo_audio) demo_plan"
    by (simp add: demo_inputs_def)
  with demo_edit_plan demo_duration show ?thesis by simp
qed

section \<open>The shape of a visual timeline\<close>

subsection \<open>Rounding\<close>

text \<open>
  Rounding to a double moves a number by less than the step of its binade, never across
  a whole number: it is at least every whole number below the argument and at most
  every whole number above it.
\<close>

lemma round_even_ge: "\<lfloor>y\<rfloor> \<le> round_even y"
  by (simp add: round_even_def Let_def)

lemma round_even_le: "round_even y \<le> \<lfloor>y\<rfloor> + 1"
  by (simp add: round_even_def Let_def)

lemma round_even_int: "y = of_int n \<Longrightarrow> round_even y = n"
  by (simp add: round_even_def Let_def)

lemma round_even_half_up: "round_even y \<le> \<lfloor>y + 1 / 2\<rfloor>"
proof -
  let ?f = "\<lfloor>y\<rfloor>"
  show ?thesis
  proof (cases "y - of_int ?f < 1 / 2")
    case True
    have "?f \<le> \<lfloor>y + 1 / 2\<rfloor>" by (intro floor_mono) simp
    with True show ?thesis by (simp add: round_even_def Let_def)
  next
    case False
    then have "of_int (?f + 1) \<le> y + 1 / 2" by simp
    then have "?f + 1 \<le> \<lfloor>y + 1 / 2\<rfloor>" by (simp only: le_floor_iff)
    with round_even_le [of y] show ?thesis by linarith
  qed
qed

lemma find_shift_from:
  assumes "2 ^ 52 \<le> x * 2 ^ s" "x * 2 ^ s < 2 ^ 53" "s \<le> 1074" "j \<le> s"
  shows "find_shift x j = s"
  using assms(4)
proof (induction "s - j" arbitrary: j)
  case 0
  then have "j = s" by simp
  with assms(1) show ?case by (simp add: find_shift.simps [of x s])
next
  case (Suc d)
  then have j: "j < s" by simp
  have "x * 2 ^ j < 2 ^ 52"
  proof -
    have x: "0 \<le> x"
    proof (rule ccontr)
      assume "\<not> 0 \<le> x"
      then have "x * 2 ^ s < 0" by (simp add: mult_neg_pos)
      moreover have "(0::rat) < 2 ^ 52" by simp
      ultimately show False using assms(1) by linarith
    qed
    from j have "Suc j \<le> s" by simp
    then have "(2::rat) ^ Suc j \<le> 2 ^ s" by (intro power_increasing) simp_all
    then have "x * 2 ^ Suc j \<le> x * 2 ^ s" using x by (intro mult_left_mono)
    with assms(2) have "x * 2 ^ Suc j < 2 ^ 53" by simp
    then show ?thesis by simp
  qed
  moreover have "\<not> 1074 \<le> j" using j assms(3) by simp
  ultimately have "find_shift x j = find_shift x (j + 1)"
    by (subst find_shift.simps) simp
  also have "\<dots> = s" using Suc(2) j by (intro Suc(1)) simp_all
  finally show ?case .
qed

lemma double_eval:
  assumes "2 ^ 52 \<le> x * 2 ^ s" "x * 2 ^ s < 2 ^ 53" "s \<le> 1074"
  shows "double x = of_int (round_even (x * 2 ^ s)) / 2 ^ s"
  using find_shift_from [OF assms, of 0] by (simp add: double_def)

lemma random_range: "0 \<le> random env k" "random env k < 1" "random env k \<le> 1 - 1 / 2 ^ 53"
proof -
  let ?m = "random_stream env k mod 2 ^ 53"
  have m: "0 \<le> ?m" "?m < 2 ^ 53" by simp_all
  show "0 \<le> random env k" using m(1) by (simp add: random_def)
  have "(of_int ?m :: rat) \<le> of_int (2 ^ 53 - 1)"
    using m(2) by simp
  then have "(of_int ?m :: rat) / 2 ^ 53 \<le> of_int (2 ^ 53 - 1) / 2 ^ 53"
    by (intro divide_right_mono) simp_all
  then show "random env k \<le> 1 - 1 / 2 ^ 53" by (simp add: random_def)
  then show "random env k < 1" by simp
qed

lemma double_ge_int:
  fixes n :: int and x :: rat
  assumes "of_int n \<le> x"
  shows "of_int n \<le> double x"
proof -
  define p :: int where "p = 2 ^ find_shift x 0"
  have p: "0 < p" by (simp add: p_def)
  have "of_int n * of_int p \<le> x * (of_int p :: rat)"
    using assms p by (intro mult_right_mono) simp_all
  then have "of_int (n * p) \<le> x * (of_int p :: rat)" by simp
  then have "n * p \<le> \<lfloor>x * of_int p\<rfloor>" by (simp only: le_floor_iff)
  with round_even_ge [of "x * of_int p"] have "n * p \<le> round_even (x * of_int p)" by linarith
  then have "(of_int (n * p) :: rat) \<le> of_int (round_even (x * of_int p))"
    by (simp only: of_int_le_iff)
  then have "of_int n * (of_int p :: rat) \<le> of_int (round_even (x * of_int p))" by simp
  then have "of_int n \<le> of_int (round_even (x * of_int p)) / (of_int p :: rat)"
    using p by (simp add: pos_le_divide_eq)
  moreover have "(of_int p :: rat) = 2 ^ find_shift x 0" by (simp add: p_def)
  ultimately show ?thesis unfolding double_def by simp
qed

lemma double_le_int:
  fixes n :: int and x :: rat
  assumes "x \<le> of_int n"
  shows "double x \<le> of_int n"
proof -
  define p :: int where "p = 2 ^ find_shift x 0"
  have p: "0 < p" by (simp add: p_def)
  have "x * (of_int p :: rat) \<le> of_int n * of_int p"
    using assms p by (intro mult_right_mono) simp_all
  then have a: "x * (of_int p :: rat) \<le> of_int (n * p)" by simp
  have "round_even (x * of_int p) \<le> n * p"
  proof (cases "x * (of_int p :: rat) = of_int (n * p)")
    case True
    then show ?thesis by (simp only: round_even_int)
  next
    case False
    have "x * (of_int p :: rat) < of_int (n * p)" by (rule le_neq_trans [OF a False])
    then have "\<lfloor>x * of_int p\<rfloor> < n * p" by (simp only: floor_less_iff)
    with round_even_le [of "x * of_int p"] show ?thesis by linarith
  qed
  then have "(of_int (round_even (x * of_int p)) :: rat) \<le> of_int (n * p)"
    by (simp only: of_int_le_iff)
  then have "(of_int (round_even (x * of_int p)) :: rat) \<le> of_int n * of_int p" by simp
  then have "of_int (round_even (x * of_int p)) / (of_int p :: rat) \<le> of_int n"
    using p by (simp add: pos_divide_le_eq)
  moreover have "(of_int p :: rat) = 2 ^ find_shift x 0" by (simp add: p_def)
  ultimately show ?thesis unfolding double_def by simp
qed

lemma double_below:
  fixes N :: int
  assumes "2 ^ 52 \<le> x * 2 ^ s" "x * 2 ^ s < 2 ^ 53" "s \<le> 1074"
    and "x * 2 ^ s + 1 / 2 < of_int (N * 2 ^ s)"
  shows "double x < of_int N"
proof -
  have "\<lfloor>x * 2 ^ s + 1 / 2\<rfloor> < N * 2 ^ s"
    using assms(4) by (simp only: floor_less_iff)
  with round_even_half_up [of "x * 2 ^ s"] have "round_even (x * 2 ^ s) < N * 2 ^ s"
    by linarith
  then have "(of_int (round_even (x * 2 ^ s)) :: rat) < of_int (N * 2 ^ s)"
    by (simp only: of_int_less_iff)
  then have "(of_int (round_even (x * 2 ^ s)) :: rat) < of_int N * 2 ^ s" by simp
  then have "(of_int (round_even (x * 2 ^ s)) :: rat) / 2 ^ s < of_int N"
    by (simp add: pos_divide_less_eq)
  then show ?thesis by (simp only: double_eval [OF assms(1-3)])
qed

text \<open>
  The indices of \<^verbatim>\<open>_generateTransform\<close> are below the lengths of its lists: a random
  number is at most \<open>1 - 2^-53\<close>, and the product with 3 or 5 does not round up to 3
  or 5.
\<close>

lemma random_index_3: "random_index env k 3 < 3"
proof -
  let ?x = "random env k * 3"
  have "double ?x < of_int 3"
  proof (cases "?x \<le> 2")
    case True
    then have "?x \<le> of_int 2" by simp
    then have "double ?x \<le> of_int 2" by (rule double_le_int)
    then show ?thesis by simp
  next
    case False
    show ?thesis
    proof (rule double_below [where s = 51])
      show "2 ^ 52 \<le> ?x * 2 ^ 51" using False by simp
      show "?x * 2 ^ 51 < 2 ^ 53" using random_range(2) [of env k] by simp
      show "?x * 2 ^ 51 + 1 / 2 < of_int (3 * 2 ^ 51)"
        using random_range(3) [of env k] by simp
    qed simp
  qed
  then have "\<lfloor>double ?x\<rfloor> < 3" by (simp only: floor_less_iff)
  then show ?thesis unfolding random_index_def by simp linarith
qed

lemma random_index_5: "random_index env k 5 < 5"
proof -
  let ?x = "random env k * 5"
  have "double ?x < of_int 5"
  proof (cases "?x \<le> 4")
    case True
    then have "?x \<le> of_int 4" by simp
    then have "double ?x \<le> of_int 4" by (rule double_le_int)
    then show ?thesis by simp
  next
    case False
    show ?thesis
    proof (rule double_below [where s = 50])
      show "2 ^ 52 \<le> ?x * 2 ^ 50" using False by simp
      show "?x * 2 ^ 50 < 2 ^ 53" using random_range(2) [of env k] by simp
      show "?x * 2 ^ 50 + 1 / 2 < of_int (5 * 2 ^ 50)"
        using random_range(3) [of env k] by simp
    qed simp
  qed
  then have "\<lfloor>double ?x\<rfloor> < 5" by (simp only: floor_less_iff)
  then show ?thesis unfolding random_index_def by simp linarith
qed

lemma min_clip_ms_range:
  "800 \<le> min_clip_ms T n" "min_clip_ms T n \<le> 3000"
  by (simp_all add: min_clip_ms_def MAX_CLIP_MS_def Let_def)

text \<open>
  The random draw of a clip duration is at least \<^verbatim>\<open>minClipMs\<close> and at most 3001: the
  product is below \<open>3001 - minClipMs\<close>, but the sum can round up to 3001.
\<close>

lemma draw_range:
  fixes u :: rat
  assumes "0 \<le> u" "u < 1" "m \<le> 3000"
  shows "m \<le> random_draw u m" and "random_draw u m \<le> 3001"
proof -
  let ?p = "double (u * of_int (MAX_CLIP_MS - m + 1))"
  have w: "(0::rat) < of_int (MAX_CLIP_MS - m + 1)"
    using assms(3) by (simp add: MAX_CLIP_MS_def)
  have "of_int 0 \<le> u * of_int (MAX_CLIP_MS - m + 1)" using assms(1) w by simp
  then have "of_int 0 \<le> ?p" by (rule double_ge_int)
  then have "of_int m \<le> ?p + of_int m" by simp
  then have "of_int m \<le> double (?p + of_int m)" by (rule double_ge_int)
  then show "m \<le> random_draw u m"
    unfolding random_draw_def by (simp only: le_floor_iff)
  have "u * of_int (MAX_CLIP_MS - m + 1) \<le> 1 * of_int (MAX_CLIP_MS - m + 1)"
    using assms(2) w by (intro mult_right_mono) simp_all
  then have "u * of_int (MAX_CLIP_MS - m + 1) \<le> of_int (MAX_CLIP_MS - m + 1)" by simp
  then have "?p \<le> of_int (MAX_CLIP_MS - m + 1)" by (rule double_le_int)
  then have "?p + of_int m \<le> of_int 3001" by (simp add: MAX_CLIP_MS_def)
  then have "double (?p + of_int m) \<le> of_int 3001" by (rule double_le_int)
  then have "\<lfloor>double (?p + of_int m)\<rfloor> \<le> \<lfloor>of_int 3001 :: rat\<rfloor>" by (rule floor_mono)
  then show "random_draw u m \<le> 3001"
    unfolding random_draw_def by simp
qed

lemma clip_duration_bounds:
  assumes "0 \<le> u" "u < 1" "800 \<le> m" "m \<le> 3000" "800 \<le> r"
  shows "800 \<le> clip_duration u m r \<and> clip_duration u m r \<le> 3001
         \<and> (r - clip_duration u m r = 0 \<or> 800 \<le> r - clip_duration u m r)"
proof -
  define d0 where "d0 = random_draw u m"
  have d: "m \<le> d0" "d0 \<le> 3001"
    using draw_range [OF assms(1,2,4)] by (simp_all add: d0_def)
  have c: "clip_duration u m r =
             (if 0 < r - (if r < d0 then r else d0) \<and> r - (if r < d0 then r else d0) < 800
              then if r \<le> MAX_CLIP_MS then r else r - 800
              else if r < d0 then r else d0)"
    unfolding clip_duration_def Let_def d0_def [symmetric] by simp
  show ?thesis
    unfolding c using d assms(3,5) by (auto simp: MAX_CLIP_MS_def)
qed

subsection \<open>The selection of an asset\<close>

lemma all_assets: "getAllUnusedAssets {} = MOCK_DB"
  by (simp add: getAllUnusedAssets_def)

lemma length_MOCK_DB: "length MOCK_DB = 18"
  by (simp add: MOCK_DB_def)

lemma find_unused:
  "find (\<lambda>a. asset_id a \<notin> U) xs = Some a \<Longrightarrow> asset_id a \<notin> U"
  by (auto simp: find_Some_iff)

lemma unused_nth:
  assumes "i < length (getAllUnusedAssets U)"
  shows "asset_id (getAllUnusedAssets U ! i) \<notin> U"
proof -
  have "getAllUnusedAssets U ! i \<in> set (getAllUnusedAssets U)"
    using assms by (rule nth_mem)
  then show ?thesis by (simp add: getAllUnusedAssets_def)
qed

lemma selectUniqueAsset_frame:
  "usedIds (snd (selectUniqueAsset env kw allowReuse lastId st)) = usedIds st
   \<and> v_currentTimeMs (snd (selectUniqueAsset env kw allowReuse lastId st)) = v_currentTimeMs st
   \<and> v_timeline (snd (selectUniqueAsset env kw allowReuse lastId st)) = v_timeline st"
  by (simp add: selectUniqueAsset_def Let_def split: option.splits list.splits)

lemma selectUniqueAsset_asset:
  assumes "fst (selectUniqueAsset env kw allowReuse lastId st) = Some a"
  shows "asset_id a \<notin> usedIds st \<or> allowReuse"
proof (cases "find (\<lambda>a. asset_id a \<notin> usedIds st) (lookup env (lookups st) kw)")
  case (Some c)
  with assms have "c = a" by (simp add: selectUniqueAsset_def Let_def)
  with find_unused [OF Some] show ?thesis by simp
next
  case None
  note n1 = this
  show ?thesis
  proof (cases "find (\<lambda>a. asset_id a \<notin> usedIds st) getFallbacks")
    case (Some c)
    with assms n1 have "c = a" by (simp add: selectUniqueAsset_def Let_def)
    with find_unused [OF Some] show ?thesis by simp
  next
    case None
    show ?thesis
    proof (cases "0 < length (getAllUnusedAssets (usedIds st))")
      case True
      let ?i = "random_index env (draws st) (length (getAllUnusedAssets (usedIds st)))"
      from assms n1 None True have
        "?i < length (getAllUnusedAssets (usedIds st)) \<and> a = getAllUnusedAssets (usedIds st) ! ?i"
        by (simp add: selectUniqueAsset_def Let_def split: if_splits)
      with unused_nth [of ?i "usedIds st"] show ?thesis by simp
    next
      case False
      with assms n1 None show ?thesis
        by (cases allowReuse) (simp_all add: selectUniqueAsset_def Let_def)
    qed
  qed
qed

lemma recover_frame:
  "usedIds (snd (recover env allowReuse lastId kws st)) = usedIds st
   \<and> v_currentTimeMs (snd (recover env allowReuse lastId kws st)) = v_currentTimeMs st
   \<and> v_timeline (snd (recover env allowReuse lastId kws st)) = v_timeline st"
proof (induction kws arbitrary: st)
  case Nil
  show ?case by simp
next
  case (Cons kw kws)
  obtain r s1 where s: "selectUniqueAsset env (Some kw) allowReuse lastId st = (r, s1)"
    by (cases "selectUniqueAsset env (Some kw) allowReuse lastId st")
  with selectUniqueAsset_frame [of env "Some kw" allowReuse lastId st]
  have f: "usedIds s1 = usedIds st" "v_currentTimeMs s1 = v_currentTimeMs st"
    "v_timeline s1 = v_timeline st" by simp_all
  show ?case
    using Cons.IH [of s1] f by (cases r) (simp_all add: s)
qed

lemma recover_asset:
  "fst (recover env allowReuse lastId kws st) = Some a \<Longrightarrow> asset_id a \<notin> usedIds st \<or> allowReuse"
proof (induction kws arbitrary: st)
  case Nil
  then show ?case by simp
next
  case (Cons kw kws)
  obtain r s1 where s: "selectUniqueAsset env (Some kw) allowReuse lastId st = (r, s1)"
    by (cases "selectUniqueAsset env (Some kw) allowReuse lastId st")
  with selectUniqueAsset_frame [of env "Some kw" allowReuse lastId st]
  have f: "usedIds s1 = usedIds st" by simp
  show ?case
  proof (cases r)
    case None
    with Cons.prems s have "fst (recover env allowReuse lastId kws s1) = Some a" by simp
    from Cons.IH [OF this] f show ?thesis by simp
  next
    case (Some b)
    with Cons.prems s have "fst (selectUniqueAsset env (Some kw) allowReuse lastId st) = Some a"
      by simp
    then show ?thesis by (rule selectUniqueAsset_asset)
  qed
qed

lemma select_clip_unused:
  assumes "select_clip env kws allowReuse st = Inr (sel, st')"
  shows "(asset_id (sel_asset sel) \<notin> usedIds st \<or> allowReuse)
         \<and> usedIds st' = insert (asset_id (sel_asset sel)) (usedIds st)"
proof -
  let ?kw = "if kws = [] then None else Some (kws ! (keywordIdx st mod length kws))"
  let ?last = "if v_timeline st = [] then None else Some (clip_id (last (v_timeline st)))"
  let ?r1 = "selectUniqueAsset env ?kw allowReuse ?last st"
  let ?r2 = "case fst ?r1 of Some a \<Rightarrow> ?r1
             | None \<Rightarrow> recover env allowReuse ?last (uniqueKeywords kws) (snd ?r1)"
  have u: "usedIds (snd ?r2) = usedIds st"
    using selectUniqueAsset_frame [of env ?kw allowReuse ?last st]
      recover_frame [of env allowReuse ?last "uniqueKeywords kws" "snd ?r1"]
    by (cases "fst ?r1") simp_all
  have a: "fst ?r2 = Some b \<Longrightarrow> asset_id b \<notin> usedIds st \<or> allowReuse" for b
  proof (cases "fst ?r1")
    case None
    assume "fst ?r2 = Some b"
    with None have "fst (recover env allowReuse ?last (uniqueKeywords kws) (snd ?r1)) = Some b"
      by simp
    from recover_asset [OF this] selectUniqueAsset_frame [of env ?kw allowReuse ?last st]
    show ?thesis by simp
  next
    case (Some c)
    assume "fst ?r2 = Some b"
    with Some have "fst ?r1 = Some b" by simp
    then show ?thesis by (rule selectUniqueAsset_asset)
  qed
  from assms obtain b p where
    b: "fst ?r2 = Some b" "sel_asset sel = b"
       "st' = (snd ?r2)\<lparr> usedIds := insert (asset_id b) (usedIds (snd ?r2)),
                          keywordIdx := keywordIdx (snd ?r2) + 1,
                          draws := snd (generateTransform env (draws (snd ?r2))),
                          files := files (snd ?r2) + 1 \<rparr>"
    unfolding select_clip_def Let_def
    by (cases "fst ?r2"; cases "local_file env (files (snd ?r2)) (the (fst ?r2))") auto
  from a [OF b(1)] b u show ?thesis by simp
qed

lemma abutting_snoc:
  assumes "abutting cs" "cs \<noteq> [] \<longrightarrow> clip_start_ms c = clip_end_ms (last cs)"
  shows "abutting (cs @ [c])"
  unfolding abutting_def
proof (intro allI impI)
  fix i assume i: "Suc i < length (cs @ [c])"
  show "clip_start_ms ((cs @ [c]) ! Suc i) = clip_end_ms ((cs @ [c]) ! i)"
  proof (cases "Suc i < length cs")
    case True
    with assms(1) show ?thesis by (simp add: abutting_def nth_append)
  next
    case False
    with i have l: "Suc i = length cs" by simp
    then have ne: "cs \<noteq> []" by auto
    from l have "length cs - 1 = i" by simp
    with ne have "last cs = cs ! i" by (simp add: last_conv_nth)
    note ne this
    with assms(2) l show ?thesis by (simp add: nth_append)
  qed
qed

lemma vinv_step:
  assumes inv: "vinv T ar st"
    and d: "800 \<le> d" "d \<le> 3001"
           "T - v_currentTimeMs st - d = 0 \<or> 800 \<le> T - v_currentTimeMs st - d"
    and u: "clip_id c \<notin> usedIds st \<or> ar" "usedIds st' = insert (clip_id c) (usedIds st)"
    and c: "clip_start_ms c = v_currentTimeMs st" "clip_end_ms c = v_currentTimeMs st + d"
  shows "vinv T ar (st'\<lparr> v_timeline := v_timeline st @ [c],
                          v_currentTimeMs := v_currentTimeMs st + d \<rparr>)"
proof -
  let ?cs = "v_timeline st"
  have h: "clip_start_ms (hd (?cs @ [c])) = 0"
    using inv c(1) by (cases ?cs) (simp_all add: vinv_def)
  have a: "abutting (?cs @ [c])"
    using inv c(1) by (intro abutting_snoc) (simp_all add: vinv_def)
  have l: "\<forall>x \<in> set (?cs @ [c]). 800 \<le> clip_len x \<and> clip_len x \<le> 3001"
    using inv d(1,2) c by (auto simp: vinv_def clip_len_def)
  have r: "v_currentTimeMs st + d = T \<or> 800 \<le> T - (v_currentTimeMs st + d)"
    using d(3) by auto
  have s: "clip_id ` set (?cs @ [c]) \<subseteq> usedIds st'"
    using inv u(2) by (auto simp: vinv_def)
  have i: "\<not> ar \<longrightarrow> distinct (map clip_id (?cs @ [c]))"
    using inv u(1) by (auto simp: vinv_def)
  show ?thesis
    unfolding vinv_def using h a l r s i c(2) by simp
qed

lemma timeline_loop_inv:
  "timeline_loop env kws T avail st = Inr cs \<Longrightarrow> vinv T (int avail * 3000 < T) st \<Longrightarrow>
     \<exists>st'. v_timeline st' = cs \<and> vinv T (int avail * 3000 < T) st' \<and> \<not> v_currentTimeMs st' < T"
proof (induction env kws T avail st rule: timeline_loop.induct)
  case (1 env kws T avail st)
  note unfold = timeline_loop.simps [of env kws T avail st]
  show ?case
  proof (cases "v_currentTimeMs st < T")
    case False
    with "1.prems" show ?thesis by (intro exI [of _ st]) (simp add: unfold)
  next
    case True
    let ?ar = "int avail * MAX_CLIP_MS < T"
    let ?d = "clip_duration (random env (draws st)) (min_clip_ms T avail) (T - v_currentTimeMs st)"
    let ?st0 = "st\<lparr> draws := draws st + 1 \<rparr>"
    from True "1.prems"(1) obtain r where
      r: "select_clip env kws ?ar ?st0 = Inr r"
      by (cases "select_clip env kws ?ar ?st0") (simp_all add: unfold Let_def)
    let ?c = "\<lparr> clip_id = asset_id (sel_asset (fst r)), source = provider (sel_asset (fst r)),
                file_path = sel_path (fst r), clip_start_ms = v_currentTimeMs st,
                clip_end_ms = v_currentTimeMs st + ?d, keyword = sel_keyword (fst r),
                clip_transform = sel_transform (fst r) \<rparr>"
    let ?st2 = "(snd r)\<lparr> v_timeline := v_timeline st @ [?c],
                         v_currentTimeMs := v_currentTimeMs st + ?d \<rparr>"
    from True "1.prems"(1) r have run: "timeline_loop env kws T avail ?st2 = Inr cs"
      by (simp add: unfold Let_def)
    have rem: "800 \<le> T - v_currentTimeMs st"
      using True "1.prems"(2) by (auto simp: vinv_def)
    have b: "800 \<le> ?d \<and> ?d \<le> 3001
             \<and> (T - v_currentTimeMs st - ?d = 0 \<or> 800 \<le> T - v_currentTimeMs st - ?d)"
      by (rule clip_duration_bounds [OF random_range(1) random_range(2)
            min_clip_ms_range(1) min_clip_ms_range(2) rem])
    have "select_clip env kws ?ar ?st0 = Inr (fst r, snd r)" using r by simp
    from select_clip_unused [OF this]
    have sel: "(asset_id (sel_asset (fst r)) \<notin> usedIds st \<or> ?ar)
               \<and> usedIds (snd r) = insert (asset_id (sel_asset (fst r))) (usedIds st)"
      by simp
    have ar: "?ar = (int avail * 3000 < T)" by (simp add: MAX_CLIP_MS_def)
    have "vinv T (int avail * 3000 < T) ?st2"
      using b sel ar by (intro vinv_step [OF "1.prems"(2)]) auto
    from "1.IH" [OF True refl refl refl refl r run this]
    show ?thesis .
  qed
qed

lemma vinv_initial: "800 \<le> T \<Longrightarrow> vinv T ar initial_vstate"
  by (simp add: vinv_def initial_vstate_def abutting_def)

text \<open>
  What holds of every timeline that the builder returns for a whole duration of at
  least 800 ms: it covers the duration without a gap, every clip lasts between 800 and
  3001 ms, and no asset is used twice unless reuse was enabled.
\<close>

lemma visual_timeline_shape:
  assumes "800 \<le> totalMs" "visual_generateTimeline env kws totalMs = Inr cs"
  shows "covers totalMs cs
         \<and> (\<forall>c \<in> set cs. 800 \<le> clip_len c \<and> clip_len c \<le> 3001)
         \<and> (\<not> reuse_enabled totalMs \<longrightarrow> distinct (map clip_id cs))"
proof -
  from assms(2) have run: "timeline_loop env kws totalMs 18 initial_vstate = Inr cs"
    by (simp add: visual_generateTimeline_def all_assets length_MOCK_DB)
  from timeline_loop_inv [OF run vinv_initial [OF assms(1)]] obtain st' where
    st: "v_timeline st' = cs" "vinv totalMs (int 18 * 3000 < totalMs) st'"
        "\<not> v_currentTimeMs st' < totalMs"
    by blast
  from st(2,3) have cur: "v_currentTimeMs st' = totalMs"
    by (auto simp: vinv_def)
  with st(2) assms(1) have ne: "v_timeline st' \<noteq> []"
    by (auto simp: vinv_def)
  from st(2) ne cur have "covers totalMs (v_timeline st')"
    by (simp add: vinv_def covers_def abutting_def)
  moreover from st(2) have "\<forall>c \<in> set (v_timeline st'). 800 \<le> clip_len c \<and> clip_len c \<le> 3001"
    by (simp add: vinv_def)
  moreover from st(2) have "\<not> reuse_enabled totalMs \<longrightarrow> distinct (map clip_id (v_timeline st'))"
    by (simp add: vinv_def reuse_enabled_def length_MOCK_DB)
  ultimately show ?thesis using st(1) by simp
qed

subsection \<open>A clip of 3001 ms\<close>

text \<open>
  With the random number \<open>1 - 2^-52\<close> and \<^verbatim>\<open>minClipMs\<close> = 1466 the product
  \<open>(1 - 2^-52) * 1535\<close> rounds to \<open>1535 - 2^-42\<close>, and \<open>1535 - 2^-42 + 1466\<close> lies
  half way between the doubles \<open>3001 - 2^-41\<close> and 3001; the tie goes to 3001, the even
  one.
\<close>

lemma max_random: "random max_env k = 4503599627370495 / 4503599627370496"
  by (simp add: random_def max_env_def)

lemma max_round_1: "round_even (6913025428013709825 / 1024) = 6751001394544639"
  by code_simp

lemma max_product:
  "double (6913025428013709825 / 4503599627370496) = 6751001394544639 / 4398046511104"
  by (subst double_eval [where s = 42]) (simp_all add: max_round_1)

lemma max_round_2: "round_even (13198537579823103 / 2) = 6599268789911552"
  by code_simp

lemma max_sum: "double (13198537579823103 / 4398046511104) = 3001"
  by (subst double_eval [where s = 41]) (simp_all add: max_round_2)

lemma max_draw: "random_draw (4503599627370495 / 4503599627370496) 1466 = 3001"
  unfolding random_draw_def MAX_CLIP_MS_def
  by (simp add: max_product max_sum)

lemma max_round_3: "round_even (13510798882111485 / 2) = 6755399441055742"
  by code_simp

lemma max_times_3:
  "double (13510798882111485 / 4503599627370496) = 3377699720527871 / 1125899906842624"
  by (subst double_eval [where s = 51]) (simp_all add: max_round_3)

lemma max_index_3: "random_index max_env k 3 = 2"
proof -
  have "\<lfloor>3377699720527871 / 1125899906842624 :: rat\<rfloor> = 2"
    by (simp add: floor_eq_iff)
  then show ?thesis
    by (simp add: random_index_def max_random max_times_3)
qed

lemma max_round_5: "round_even (22517998136852475 / 4) = 5629499534213119"
  by code_simp

lemma max_times_5:
  "double (22517998136852475 / 4503599627370496) = 5629499534213119 / 1125899906842624"
  by (subst double_eval [where s = 50]) (simp_all add: max_round_5)

lemma max_index_5: "random_index max_env k 5 = 4"
proof -
  have "\<lfloor>5629499534213119 / 1125899906842624 :: rat\<rfloor> = 4"
    by (simp add: floor_eq_iff)
  then show ?thesis
    by (simp add: random_index_def max_random max_times_5)
qed

lemma max_min_clip: "min_clip_ms 26371 18 = 1466"
  by (simp add: min_clip_ms_def MAX_CLIP_MS_def Let_def ceiling_eq_iff)

lemma money_search:
  "mockSearch (Some ''money'') =
     [mock_asset ''mock_fin_1'' [''finance'', ''money'', ''growth'', ''chart''] ''http://mock.com/fin1.mp4'',
      mock_asset ''mock_fin_3'' [''money'', ''cash'', ''wealth''] ''http://mock.com/fin3.mp4'']"
  by code_simp

lemma max_lookup: "lookup max_env k kw = mockSearch kw"
  by (simp add: max_env_def)

lemma max_local_file: "local_file max_env k a = Some (''assets/clips/'' @ asset_id a @ ''.mp4'')"
  by (simp add: max_env_def)

lemma max_transform:
  "generateTransform max_env k = (\<lparr> t_zoom = 11 / 10, t_pan = ''down'' \<rparr>, k + 4)"
proof -
  have l: "length zooms = 3" "length transforms = 5"
    by (simp_all add: zooms_def transforms_def)
  have z: "zooms ! 2 = 11 / 10" by (simp add: zooms_def)
  have t: "transforms ! 4 = ''down''" by (simp add: transforms_def)
  show ?thesis
    by (simp add: generateTransform_def random_pick_def max_random max_index_3 max_index_5
        l z t Let_def)
qed


lemma max_select:
  assumes "(case find (\<lambda>a. asset_id a \<notin> usedIds st) (mockSearch (Some ''money'')) of
              Some c \<Rightarrow> Some c
            | None \<Rightarrow> find (\<lambda>a. asset_id a \<notin> usedIds st) MOCK_DB) = Some a"
  shows "select_clip max_env [''money''] False st =
           Inr (\<lparr> sel_asset = a, sel_keyword = Some ''money'',
                  sel_transform = \<lparr> t_zoom = 11 / 10, t_pan = ''down'' \<rparr>,
                  sel_path = ''assets/clips/'' @ asset_id a @ ''.mp4'' \<rparr>,
                \<lparr> v_currentTimeMs = v_currentTimeMs st,
                  usedIds = insert (asset_id a) (usedIds st),
                  keywordIdx = keywordIdx st + 1, v_timeline = v_timeline st,
                  draws = draws st + 4, lookups = lookups st + 1, files = files st + 1 \<rparr>)"
proof -
  let ?kw = "Some ''money''"
  let ?last = "if v_timeline st = [] then None else Some (clip_id (last (v_timeline st)))"
  have s: "selectUniqueAsset max_env ?kw False ?last st = (Some a, st\<lparr> lookups := lookups st + 1 \<rparr>)"
    using assms
    by (cases "find (\<lambda>a. asset_id a \<notin> usedIds st) (mockSearch (Some ''money''))")
       (simp_all add: selectUniqueAsset_def max_lookup getFallbacks_def Let_def)
  show ?thesis
    unfolding select_clip_def Let_def
    by (simp add: s max_transform max_local_file)
qed


lemma max_step:
  assumes c: "v_currentTimeMs st < 26371"
    and a: "(case find (\<lambda>a. asset_id a \<notin> usedIds st) (mockSearch (Some ''money'')) of
               Some c \<Rightarrow> Some c
             | None \<Rightarrow> find (\<lambda>a. asset_id a \<notin> usedIds st) MOCK_DB) = Some a"
    and d: "clip_duration (4503599627370495 / 4503599627370496) 1466 (26371 - v_currentTimeMs st) = d"
  shows "timeline_loop max_env [''money''] 26371 18 st =
         timeline_loop max_env [''money''] 26371 18
           \<lparr> v_currentTimeMs = v_currentTimeMs st + d,
             usedIds = insert (asset_id a) (usedIds st),
             keywordIdx = keywordIdx st + 1,
             v_timeline = v_timeline st @
               [\<lparr> clip_id = asset_id a, source = provider a,
                  file_path = ''assets/clips/'' @ asset_id a @ ''.mp4'',
                  clip_start_ms = v_currentTimeMs st, clip_end_ms = v_currentTimeMs st + d,
                  keyword = Some ''money'',
                  clip_transform = \<lparr> t_zoom = 11 / 10, t_pan = ''down'' \<rparr> \<rparr>],
             draws = draws st + 5, lookups = lookups st + 1, files = files st + 1 \<rparr>"
proof -
  let ?st0 = "st\<lparr> draws := draws st + 1 \<rparr>"
  have a0: "(case find (\<lambda>a. asset_id a \<notin> usedIds ?st0) (mockSearch (Some ''money'')) of
               Some c \<Rightarrow> Some c
             | None \<Rightarrow> find (\<lambda>a. asset_id a \<notin> usedIds ?st0) MOCK_DB) = Some a"
    using a by (simp cong: option.case_cong)
  note sel = max_select [OF a0, simplified]
  show ?thesis
    by (subst timeline_loop.simps)
       (simp add: c MAX_CLIP_MS_def max_min_clip max_random d sel Let_def add.commute)
qed

lemma max_duration_1: "3801 \<le> r \<Longrightarrow> clip_duration (4503599627370495 / 4503599627370496) 1466 r = 3001"
  by (simp add: clip_duration_def max_draw Let_def)

lemma max_duration_2: "clip_duration (4503599627370495 / 4503599627370496) 1466 2363 = 2363"
  by (simp add: clip_duration_def max_draw Let_def)

lemma max_state_0:
  "timeline_loop max_env [''money''] 26371 18 (max_state 0) = timeline_loop max_env [''money''] 26371 18 (max_state 1)"
  apply (subst max_step)
     apply (simp add: max_state_def max_timeline_def max_clip_def)
    apply (simp add: max_state_def max_timeline_def max_clip_def money_search MOCK_DB_def mock_asset_def)
   apply (simp add: max_state_def max_timeline_def max_clip_def max_duration_1)
  apply (simp add: max_state_def max_timeline_def max_clip_def mock_asset_def insert_commute eval_nat_numeral)
  done

lemma max_state_1:
  "timeline_loop max_env [''money''] 26371 18 (max_state 1) = timeline_loop max_env [''money''] 26371 18 (max_state 2)"
  apply (subst max_step)
     apply (simp add: max_state_def max_timeline_def max_clip_def)
    apply (simp add: max_state_def max_timeline_def max_clip_def money_search MOCK_DB_def mock_asset_def)
   apply (simp add: max_state_def max_timeline_def max_clip_def max_duration_1)
  apply (simp add: max_state_def max_timeline_def max_clip_def mock_asset_def insert_commute eval_nat_numeral)
  done

lemma max_state_2:
  "timeline_loop max_env [''money''] 26371 18 (max_state 2) = timeline_loop max_env [''money''] 26371 18 (max_state 3)"
  apply (subst max_step)
     apply (simp add: max_state_def max_timeline_def max_clip_def)
    apply (simp add: max_state_def max_timeline_def max_clip_def money_search MOCK_DB_def mock_asset_def)
   apply (simp add: max_state_def max_timeline_def max_clip_def max_duration_1)
  apply (simp add: max_state_def max_timeline_def max_clip_def mock_asset_def insert_commute eval_nat_numeral)
  done

lemma max_state_3:
  "timeline_loop max_env [''money''] 26371 18 (max_state 3) = timeline_loop max_env [''money''] 26371 18 (max_state 4)"
  apply (subst max_step)
     apply (simp add: max_state_def max_timeline_def max_clip_def)
    apply (simp add: max_state_def max_timeline_def max_clip_def money_search MOCK_DB_def mock_asset_def)
   apply (simp add: max_state_def max_timeline_def max_clip_def max_duration_1)
  apply (simp add: max_state_def max_timeline_def max_clip_def mock_asset_def insert_commute eval_nat_numeral)
  done

lemma max_state_4:
  "timeline_loop max_env [''money''] 26371 18 (max_state 4) = timeline_loop max_env [''money''] 26371 18 (max_state 5)"
  apply (subst max_step)
     apply (simp add: max_state_def max_timeline_def max_clip_def)
    apply (simp add: max_state_def max_timeline_def max_clip_def money_search MOCK_DB_def mock_asset_def)
   apply (simp add: max_state_def max_timeline_def max_clip_def max_duration_1)
  apply (simp add: max_state_def max_timeline_def max_clip_def mock_asset_def insert_commute eval_nat_numeral)
  done

lemma max_state_5:
  "timeline_loop max_env [''money''] 26371 18 (max_state 5) = timeline_loop max_env [''money''] 26371 18 (max_state 6)"
  apply (subst max_step)
     apply (simp add: max_state_def max_timeline_def max_clip_def)
    apply (simp add: max_state_def max_timeline_def max_clip_def money_search MOCK_DB_def mock_asset_def)
   apply (simp add: max_state_def max_timeline_def max_clip_def max_duration_1)
  apply (simp add: max_state_def max_timeline_def max_clip_def mock_asset_def insert_commute eval_nat_numeral)
  done

lemma max_state_6:
  "timeline_loop max_env [''money''] 26371 18 (max_state 6) = timeline_loop max_env [''money''] 26371 18 (max_state 7)"
  apply (subst max_step)
     apply (simp add: max_state_def max_timeline_def max_clip_def)
    apply (simp add: max_state_def max_timeline_def max_clip_def money_search MOCK_DB_def mock_asset_def)
   apply (simp add: max_state_def max_timeline_def max_clip_def max_duration_1)
  apply (simp add: max_state_def max_timeline_def max_clip_def mock_asset_def insert_commute eval_nat_numeral)
  done

lemma max_state_7:
  "timeline_loop max_env [''money''] 26371 18 (max_state 7) = timeline_loop max_env [''money''] 26371 18 (max_state 8)"
  apply (subst max_step)
     apply (simp add: max_state_def max_timeline_def max_clip_def)
    apply (simp add: max_state_def max_timeline_def max_clip_def money_search MOCK_DB_def mock_asset_def)
   apply (simp add: max_state_def max_timeline_def max_clip_def max_duration_1)
  apply (simp add: max_state_def max_timeline_def max_clip_def mock_asset_def insert_commute eval_nat_numeral)
  done

lemma max_state_8:
  "timeline_loop max_env [''money''] 26371 18 (max_state 8) = timeline_loop max_env [''money''] 26371 18 (max_state 9)"
  apply (subst max_step)
     apply (simp add: max_state_def max_timeline_def max_clip_def)
    apply (simp add: max_state_def max_timeline_def max_clip_def money_search MOCK_DB_def mock_asset_def)
   apply (simp add: max_state_def max_timeline_def max_clip_def max_duration_2)
  apply (simp add: max_state_def max_timeline_def max_clip_def mock_asset_def insert_commute eval_nat_numeral)
  done

lemma max_state_9: "timeline_loop max_env [''money''] 26371 18 (max_state 9) = Inr max_timeline"
  by (subst timeline_loop.simps) (simp add: max_state_def max_timeline_def max_clip_def)

lemma max_run: "visual_generateTimeline max_env [''money''] 26371 = Inr max_timeline"
proof -
  have "visual_generateTimeline max_env [''money''] 26371
          = timeline_loop max_env [''money''] 26371 18 initial_vstate"
    by (simp add: visual_generateTimeline_def all_assets length_MOCK_DB)
  also have "\<dots> = timeline_loop max_env [''money''] 26371 18 (max_state 0)"
    by (simp add: initial_vstate_def max_state_def)
  also have "\<dots> = Inr max_timeline"
    by (simp only: max_state_0 max_state_1 max_state_2 max_state_3 max_state_4 max_state_5
        max_state_6 max_state_7 max_state_8 max_state_9)
  finally show ?thesis .
qed

text \<open>
  C5 (the code at the failing input): for the keyword list ["money"], a duration of
  26371 ms and a random number generator that answers \<open>1 - 2^-52\<close> at every call, the
  builder returns a timeline of nine clips without reuse; it is contiguous from 0 to
  26371, but each of its first eight clips lasts 3001 ms, more than the 3000 ms of
  \<^verbatim>\<open>MAX_CLIP_MS\<close>.
\<close>

theorem C5_clip_of_3001_ms:
  "visual_generateTimeline max_env [''money''] 26371 = Inr max_timeline
   \<and> map clip_len max_timeline = [3001, 3001, 3001, 3001, 3001, 3001, 3001, 3001, 2363]
   \<and> \<not> reuse_enabled 26371"
  by (simp add: max_run max_timeline_def max_clip_def clip_len_def reuse_enabled_def
      length_MOCK_DB)

text \<open>The rest of the shape holds of that timeline, as of every other.\<close>

lemma max_timeline_shape:
  "covers 26371 max_timeline
   \<and> (\<forall>c \<in> set max_timeline. 800 \<le> clip_len c \<and> clip_len c \<le> 3001)
   \<and> distinct (map clip_id max_timeline)"
proof -
  have r: "\<not> reuse_enabled 26371"
    by (simp add: reuse_enabled_def length_MOCK_DB)
  have t: "(800 :: int) \<le> 26371" by simp
  from visual_timeline_shape [OF t max_run] r show ?thesis by blast
qed
end
